theory Spec2Isabelle
  imports Main
begin

section \<open>WebSeif: the Seif protocol engine of protocol.js and elliptic.js\<close>

text \<open>
  A shallow embedding of the parts of WebSeif that the specification's claims are about:
  the IV generator \<open>iv\<close>, the record builder \<open>make_record\<close>, the ECIES functions of
  elliptic.js, the consumer of \<open>make_consumer\<close> (\<open>destroy\<close>, \<open>enqueue\<close>, \<open>send\<close>,
  \<open>consume\<close>, \<open>receive\<close>) and the redirect handling of \<open>connect\<close> in protocol.js and
  party.js.

  Conventions. An ArrayBuffer is a list of bytes, a byte a natural number below 256 (every
  write through a DataView reduces modulo 256 explicitly). JavaScript numbers that hold
  lengths and counters are natural numbers; the only counter that can leave the range in
  which doubles are exact is the IV counter, and \<open>iv_generator\<close> refuses to run before it
  does. A thrown exception or a rejected Promise is a value of type \<open>error\<close>.
\<close>

subsection \<open>Bytes and DataView\<close>

type_synonym byte = nat

type_synonym buffer = "byte list"

datatype error =
    Counter_exhausted              \<comment> \<open>\<open>new Error("Counter exhausted.")\<close>\<close>
  | Bad_message                    \<comment> \<open>\<open>new Error("Bad message.")\<close>\<close>
  | Identifier_too_big             \<comment> \<open>\<open>new Error("Identifier too big.")\<close>\<close>
  | Unsupported_version            \<comment> \<open>\<open>new Error("Unsupported Seif version.")\<close>\<close>
  | Unexpected_acknowledgement     \<comment> \<open>the string \<open>"Unexpected acknowledgement."\<close>\<close>
  | Unrecognized_message_type      \<comment> \<open>the string \<open>"Unrecognized message type."\<close>\<close>
  | Redirected                     \<comment> \<open>the string \<open>"Redirected."\<close>\<close>
  | Syntax_error                   \<comment> \<open>\<open>JSON.parse\<close> threw\<close>
  | Type_error                     \<comment> \<open>a call of \<open>undefined\<close>, or a property read on it\<close>
  | Operation_error                \<comment> \<open>a WebCrypto operation rejected\<close>
  | Reason string                  \<comment> \<open>any other value passed as a reason\<close>

definition ArrayBuffer :: "nat \<Rightarrow> buffer" where
  "ArrayBuffer n = replicate n 0"

text \<open>\<open>DataView.prototype.setUint32(byteOffset, value)\<close>, big-endian: the value is taken
  modulo \<open>2 ^ 32\<close> and its four bytes are stored from the most significant one.\<close>

definition setUint32 :: "buffer \<Rightarrow> nat \<Rightarrow> nat \<Rightarrow> buffer" where
  "setUint32 buffer byteOffset v =
     buffer[byteOffset := v div 2 ^ 24 mod 256,
            byteOffset + 1 := v div 2 ^ 16 mod 256,
            byteOffset + 2 := v div 2 ^ 8 mod 256,
            byteOffset + 3 := v mod 256]"

text \<open>\<open>DataView.prototype.setUint16(byteOffset, value)\<close>, big-endian: the value is taken
  modulo \<open>2 ^ 16\<close>.\<close>

definition setUint16 :: "buffer \<Rightarrow> nat \<Rightarrow> nat \<Rightarrow> buffer" where
  "setUint16 buffer byteOffset v =
     buffer[byteOffset := v div 2 ^ 8 mod 256,
            byteOffset + 1 := v mod 256]"

text \<open>\<open>DataView.prototype.getUint16(0)\<close> on a two-byte buffer, big-endian.\<close>

definition getUint16 :: "buffer \<Rightarrow> nat" where
  "getUint16 buffer = (buffer ! 0) * 256 + buffer ! 1"

definition concat_buffers :: "buffer \<Rightarrow> buffer \<Rightarrow> buffer" where
  "concat_buffers a b = a @ b"

text \<open>The specification's words: the \<open>k\<close>-byte big-endian encoding of a number, and the
  number a big-endian byte string stands for.\<close>

fun be_bytes :: "nat \<Rightarrow> nat \<Rightarrow> buffer" where
  "be_bytes 0 n = []"
| "be_bytes (Suc k) n = be_bytes k (n div 256) @ [n mod 256]"

definition be_value :: "buffer \<Rightarrow> nat" where
  "be_value bs = foldl (\<lambda>a b. a * 256 + b) 0 bs"

subsection \<open>The IV generator (protocol.js, \<open>iv\<close>)\<close>

definition MAX_SAFE_INTEGER :: nat where
  "MAX_SAFE_INTEGER = 2 ^ 53 - 1"

text \<open>The closure returned by \<open>iv(fixed_field)\<close>: the captured parameter and the local
  variable \<open>counter\<close>.\<close>

record iv_state =
  fixed_field :: nat
  counter :: nat

definition iv :: "nat \<Rightarrow> iv_state" where
  "iv f = \<lparr>fixed_field = f, counter = 0\<rparr>"

text \<open>One call of \<open>iv_generator()\<close>: the exception, or the IV and the closure after the call.
  \<open>Math.floor(counter / 2 ** 32)\<close> and \<open>counter % 2 ** 32\<close> are exact on a counter that
  passed the guard, and so is \<open>counter += 1\<close>.\<close>

definition iv_generator :: "iv_state \<Rightarrow> error + (buffer \<times> iv_state)" where
  "iv_generator g =
     (if counter g > MAX_SAFE_INTEGER then Inl Counter_exhausted
      else
        let buffer = ArrayBuffer 12;
            buffer = setUint32 buffer 0 (fixed_field g);
            buffer = setUint32 buffer 4 (counter g div 2 ^ 32);
            buffer = setUint32 buffer 8 (counter g mod 2 ^ 32)
        in Inr (buffer, g\<lparr>counter := counter g + 1\<rparr>))"

text \<open>The closure after \<open>n\<close> calls; a call that throws leaves it as it was.\<close>

fun calls :: "nat \<Rightarrow> iv_state \<Rightarrow> iv_state" where
  "calls 0 g = g"
| "calls (Suc n) g =
     (case iv_generator (calls n g) of
        Inl e \<Rightarrow> calls n g
      | Inr (buffer, g') \<Rightarrow> g')"

text \<open>The two generators of each party. \<open>connect\<close> creates \<open>iv(0)\<close> for encryption and
  \<open>iv(1)\<close> for decryption in \<open>on_transport_open\<close>; \<open>listen\<close> passes \<open>iv(1)\<close> and \<open>iv(0)\<close>
  to \<open>make_consumer\<close>.\<close>

datatype role = Initiator | Receiver

record iv_pair =
  next_encryption_iv :: iv_state
  next_decryption_iv :: iv_state

definition connect_ivs :: iv_pair where
  "connect_ivs = \<lparr>next_encryption_iv = iv 0, next_decryption_iv = iv 1\<rparr>"

definition listen_ivs :: iv_pair where
  "listen_ivs = \<lparr>next_encryption_iv = iv 1, next_decryption_iv = iv 0\<rparr>"

text \<open>Every AES-GCM encryption under a handshake or session key takes its IV from the
  encrypting party's \<open>next_encryption_iv\<close>: \<open>hello\<close> is given \<open>next_encryption_iv()\<close> by
  \<open>connect\<close>, \<open>auth_hello\<close> and the consumer's \<open>encrypt\<close> call \<open>next_encryption_iv()\<close> for
  each buffer. \<open>encryptions\<close> runs a sequence of such encryptions, each by one of the two
  parties of a connection under a key of its choice, and lists the party, the key and the
  IV of each. The sequence ends at the first exhausted counter: the exception destroys the
  connection.\<close>

fun encryptions :: "iv_pair \<Rightarrow> iv_pair \<Rightarrow> (role \<times> 'k) list \<Rightarrow> (role \<times> 'k \<times> buffer) list" where
  "encryptions i r [] = []"
| "encryptions i r ((Initiator, k) # es) =
     (case iv_generator (next_encryption_iv i) of
        Inl e \<Rightarrow> []
      | Inr (v, g) \<Rightarrow> (Initiator, k, v) # encryptions (i\<lparr>next_encryption_iv := g\<rparr>) r es)"
| "encryptions i r ((Receiver, k) # es) =
     (case iv_generator (next_encryption_iv r) of
        Inl e \<Rightarrow> []
      | Inr (v, g) \<Rightarrow> (Receiver, k, v) # encryptions i (r\<lparr>next_encryption_iv := g\<rparr>) es)"

definition fixed_field_of :: "role \<Rightarrow> nat" where
  "fixed_field_of p = (case p of Initiator \<Rightarrow> 0 | Receiver \<Rightarrow> 1)"

definition iv_fixed_field :: "buffer \<Rightarrow> nat" where
  "iv_fixed_field v = be_value (take 4 v)"

definition iv_counter :: "buffer \<Rightarrow> nat" where
  "iv_counter v = be_value (drop 4 v)"

subsection \<open>Big-endian encodings\<close>

lemma four: "(4::nat) = Suc (Suc (Suc (Suc 0)))"
  by simp

lemma eight: "(8::nat) = Suc (Suc (Suc (Suc (Suc (Suc (Suc (Suc 0)))))))"
  by simp

lemma div_256_256: "(v::nat) div 256 div 256 = v div 65536"
proof -
  have "v div 256 div 256 = v div (256 * 256)" by (rule div_mult2_eq[symmetric])
  then show ?thesis by simp
qed

lemma div_65536_256: "(v::nat) div 65536 div 256 = v div 16777216"
proof -
  have "v div 65536 div 256 = v div (65536 * 256)" by (rule div_mult2_eq[symmetric])
  then show ?thesis by simp
qed

lemma be_bytes_4:
  "be_bytes 4 v = [v div 2 ^ 24 mod 256, v div 2 ^ 16 mod 256, v div 2 ^ 8 mod 256, v mod 256]"
  unfolding four be_bytes.simps by (simp add: div_256_256 div_65536_256)

lemma replicate_12: "replicate 12 (0::nat) = [0, 0, 0, 0, 0, 0, 0, 0, 0, 0, 0, 0]"
  by code_simp

lemma iv_bytes:
  "setUint32 (setUint32 (setUint32 (ArrayBuffer 12) 0 f) 4 h) 8 l
     = be_bytes 4 f @ be_bytes 4 h @ be_bytes 4 l"
  unfolding be_bytes_4 setUint32_def ArrayBuffer_def replicate_12
  unfolding four eight
  by simp

lemma length_be_bytes [simp]: "length (be_bytes k n) = k"
  by (induction k arbitrary: n) simp_all

lemma be_bytes_add: "be_bytes (j + k) n = be_bytes j (n div 256 ^ k) @ be_bytes k n"
proof (induction k arbitrary: n)
  case 0
  then show ?case by simp
next
  case (Suc k)
  have "n div 256 div 256 ^ k = n div 256 ^ Suc k"
    by (simp only: power_Suc div_mult2_eq)
  with Suc show ?case by simp
qed

lemma be_value_snoc: "be_value (bs @ [b]) = be_value bs * 256 + b"
  by (simp add: be_value_def)

lemma be_value_be_bytes: "be_value (be_bytes k n) = n mod 256 ^ k"
proof (induction k arbitrary: n)
  case 0
  then show ?case by (simp add: be_value_def)
next
  case (Suc k)
  have "n mod (256 * 256 ^ k) = 256 * (n div 256 mod 256 ^ k) + n mod 256"
    by (rule mod_mult2_eq)
  with Suc show ?case by (simp add: be_value_snoc)
qed

lemma be_bytes_mod: "be_bytes k (n mod 256 ^ k) = be_bytes k n"
proof (induction k arbitrary: n)
  case 0
  then show ?case by simp
next
  case (Suc k)
  have a: "n mod (256 * 256 ^ k) div 256 = n div 256 mod 256 ^ k"
    by (simp add: mod_mult2_eq)
  have b: "n mod (256 * 256 ^ k) mod 256 = n mod 256"
    by (simp add: mod_mult2_eq)
  show ?case using Suc[of "n div 256"] by (simp add: a b)
qed

lemma be_bytes_8: "be_bytes 8 n = be_bytes 4 (n div 2 ^ 32) @ be_bytes 4 (n mod 2 ^ 32)"
proof -
  have "be_bytes (4 + 4) n = be_bytes 4 (n div 256 ^ 4) @ be_bytes 4 n"
    by (rule be_bytes_add)
  moreover have "be_bytes 4 (n mod 256 ^ 4) = be_bytes 4 n"
    by (rule be_bytes_mod)
  moreover have "(256::nat) ^ 4 = 2 ^ 32"
    by simp
  ultimately show ?thesis by simp
qed

subsection \<open>The IV generator: its calls\<close>

lemma iv_generator_Inr:
  "counter g \<le> MAX_SAFE_INTEGER \<Longrightarrow>
   iv_generator g = Inr (be_bytes 4 (fixed_field g) @ be_bytes 8 (counter g), g\<lparr>counter := counter g + 1\<rparr>)"
  by (simp add: iv_generator_def iv_bytes be_bytes_8 Let_def)

lemma iv_generator_Inl:
  "MAX_SAFE_INTEGER < counter g \<Longrightarrow> iv_generator g = Inl Counter_exhausted"
  by (simp add: iv_generator_def)

lemma iv_generator_fails_iff:
  "(iv_generator g = Inl e) = (MAX_SAFE_INTEGER < counter g \<and> e = Counter_exhausted)"
  by (auto simp add: iv_generator_def Let_def)

lemma calls_iv:
  "calls n (iv f) = \<lparr>fixed_field = f, counter = min n (MAX_SAFE_INTEGER + 1)\<rparr>"
proof (induction n)
  case 0
  then show ?case by (simp add: iv_def)
next
  case (Suc n)
  show ?case
  proof (cases "n \<le> MAX_SAFE_INTEGER")
    case True
    then show ?thesis using Suc by (simp add: iv_generator_Inr min_def)
  next
    case False
    then show ?thesis using Suc by (simp add: iv_generator_Inl min_def)
  qed
qed

lemma be_bytes_4_small: "f < 256 \<Longrightarrow> be_bytes 4 f = [0, 0, 0, f]"
  by (simp add: be_bytes_4)

text \<open>
  Claim C2. For a fixed field \<open>f\<close> of 0 or 1, call number \<open>n\<close> (from 0) of the generator
  \<open>iv(f)\<close> returns, as long as \<open>n\<close> is at most \<open>2 ^ 53 - 1\<close>, the 12 bytes made of the
  32-bit big-endian encoding of \<open>f\<close> (three zero bytes, then \<open>f\<close>) and the 64-bit big-endian
  encoding of \<open>n\<close>, and leaves the counter at \<open>n + 1\<close>. The call throws exactly when the
  counter has exceeded \<open>2 ^ 53 - 1\<close>, and then the exception is "Counter exhausted.".
\<close>

theorem iv_generator_nth_call:
  assumes "f \<in> {0, 1}"
  shows "(n \<le> 2 ^ 53 - 1 \<longrightarrow>
            iv_generator (calls n (iv f))
              = Inr (be_bytes 4 f @ be_bytes 8 n, \<lparr>fixed_field = f, counter = n + 1\<rparr>)
            \<and> length (be_bytes 4 f @ be_bytes 8 n) = 12
            \<and> be_bytes 4 f = [0, 0, 0, f]
            \<and> be_value (be_bytes 8 n) = n)
       \<and> ((\<exists>e. iv_generator (calls n (iv f)) = Inl e) = (2 ^ 53 - 1 < n))
       \<and> (2 ^ 53 - 1 < n \<longrightarrow> iv_generator (calls n (iv f)) = Inl Counter_exhausted)
       \<and> (\<forall>g e. (iv_generator g = Inl e) = (2 ^ 53 - 1 < counter g \<and> e = Counter_exhausted))"
proof -
  have f: "f < 256" using assms by auto
  have small: "n \<le> 2 ^ 53 - 1 \<Longrightarrow> n mod 256 ^ 8 = n"
  proof -
    assume "n \<le> 2 ^ 53 - 1"
    then have "n < 256 ^ 8" by simp
    then show ?thesis by simp
  qed
  show ?thesis
    using f small
    by (auto simp add: calls_iv iv_generator_Inr iv_generator_Inl iv_generator_fails_iff
        MAX_SAFE_INTEGER_def be_bytes_4_small be_value_be_bytes min_def)
qed

theorem iv_generator_nth_call_witness:
  "iv_generator (calls 2 (iv 1)) = Inr ([0, 0, 0, 1, 0, 0, 0, 0, 0, 0, 0, 2], \<lparr>fixed_field = 1, counter = 3\<rparr>)
   \<and> iv_generator \<lparr>fixed_field = 0, counter = 2 ^ 53\<rparr> = Inl Counter_exhausted"
proof -
  have a: "(1::nat) \<in> {0, 1}" by simp
  have b: "be_bytes 4 1 @ be_bytes 8 2 = [0, 0, 0, 1, 0, 0, 0, 0, 0, 0, 0, 2]"
    by code_simp
  show ?thesis using iv_generator_nth_call[OF a, of 2] b by simp
qed

subsection \<open>The IVs of a connection\<close>

lemma iv_fixed_field_bytes: "f < 256 \<Longrightarrow> iv_fixed_field (be_bytes 4 f @ be_bytes 8 c) = f"
  by (simp add: iv_fixed_field_def be_value_be_bytes)

lemma iv_counter_bytes:
  assumes "c \<le> MAX_SAFE_INTEGER"
  shows "iv_counter (be_bytes 4 f @ be_bytes 8 c) = c"
proof -
  have "c < 256 ^ 8"
    using assms by (simp add: MAX_SAFE_INTEGER_def)
  then have "c mod 256 ^ 8 = c"
    by (rule mod_less)
  then show ?thesis
    by (simp add: iv_counter_def be_value_be_bytes)
qed

definition entry_ok :: "nat \<Rightarrow> nat \<Rightarrow> role \<times> 'k \<times> buffer \<Rightarrow> bool" where
  "entry_ok ci cr e =
     (take 4 (snd (snd e)) = [0, 0, 0, fixed_field_of (fst e)] \<and>
      iv_fixed_field (snd (snd e)) = fixed_field_of (fst e) \<and>
      (if fst e = Initiator then ci else cr) \<le> iv_counter (snd (snd e)))"

lemma entry_ok_mono: "entry_ok ci cr e \<Longrightarrow> ci' \<le> ci \<Longrightarrow> cr' \<le> cr \<Longrightarrow> entry_ok ci' cr' e"
  by (auto simp add: entry_ok_def)

lemma entry_ok_later:
  "entry_ok ci cr e \<Longrightarrow> c < (if p = Initiator then ci else cr) \<Longrightarrow>
   (iv_fixed_field (snd (snd e)), iv_counter (snd (snd e))) \<noteq> (fixed_field_of p, c) \<and>
   (fst e = p \<longrightarrow> c < iv_counter (snd (snd e)))"
  by (cases "fst e"; cases p) (auto simp add: entry_ok_def fixed_field_of_def)

lemma entry_ok_head:
  assumes "c \<le> MAX_SAFE_INTEGER"
  shows "entry_ok (if p = Initiator then c else ci) (if p = Initiator then cr else c)
           (p, k, be_bytes 4 (fixed_field_of p) @ be_bytes 8 c)"
proof -
  have f: "fixed_field_of p < 256"
    by (cases p) (simp_all add: fixed_field_of_def)
  then have "take 4 (be_bytes 4 (fixed_field_of p) @ be_bytes 8 c) = [0, 0, 0, fixed_field_of p]"
    by (simp add: be_bytes_4_small)
  moreover have "iv_fixed_field (be_bytes 4 (fixed_field_of p) @ be_bytes 8 c) = fixed_field_of p"
    using f by (rule iv_fixed_field_bytes)
  moreover have "iv_counter (be_bytes 4 (fixed_field_of p) @ be_bytes 8 c) = c"
    using assms by (rule iv_counter_bytes)
  ultimately show ?thesis
    unfolding entry_ok_def by simp
qed

definition log_ok :: "nat \<Rightarrow> nat \<Rightarrow> role \<Rightarrow> (role \<times> 'k \<times> buffer) list \<Rightarrow> bool" where
  "log_ok ci cr q l =
     (list_all (entry_ok ci cr) l
      \<and> distinct (map (\<lambda>e. (iv_fixed_field (snd (snd e)), iv_counter (snd (snd e)))) l)
      \<and> sorted_wrt (<) (map (\<lambda>e. iv_counter (snd (snd e))) (filter (\<lambda>e. fst e = q) l)))"

lemma log_ok_Nil [simp]: "log_ok ci cr q []"
  by (simp add: log_ok_def)

lemma log_ok_Cons:
  assumes l: "log_ok ci' cr' q l"
    and e: "entry_ok ci cr (p, k, v)"
    and c: "iv_counter v < (if p = Initiator then ci' else cr')"
    and mono: "ci \<le> ci'" "cr \<le> cr'"
  shows "log_ok ci cr q ((p, k, v) # l)"
proof -
  have all: "list_all (entry_ok ci' cr') l"
    using l by (simp add: log_ok_def)
  have later: "\<forall>e \<in> set l.
      (iv_fixed_field (snd (snd e)), iv_counter (snd (snd e))) \<noteq> (fixed_field_of p, iv_counter v) \<and>
      (fst e = p \<longrightarrow> iv_counter v < iv_counter (snd (snd e)))"
  proof
    fix e
    assume "e \<in> set l"
    then have "entry_ok ci' cr' e"
      using all by (simp add: list_all_iff)
    then show "(iv_fixed_field (snd (snd e)), iv_counter (snd (snd e))) \<noteq> (fixed_field_of p, iv_counter v) \<and>
      (fst e = p \<longrightarrow> iv_counter v < iv_counter (snd (snd e)))"
      using c by (rule entry_ok_later)
  qed
  have all': "list_all (entry_ok ci cr) l"
    using all mono by (auto simp add: list_all_iff intro: entry_ok_mono)
  have fixed: "iv_fixed_field v = fixed_field_of p"
    using e by (simp add: entry_ok_def)
  show ?thesis
    using l all' e later fixed
    by (auto simp add: log_ok_def)
qed

lemma distinct_map_imp: "distinct (map f xs) \<Longrightarrow> distinct xs"
  by (simp add: distinct_map)

lemma encryptions_invariant:
  "fixed_field (next_encryption_iv i) = 0 \<Longrightarrow> fixed_field (next_encryption_iv r) = 1 \<Longrightarrow>
   log_ok (counter (next_encryption_iv i)) (counter (next_encryption_iv r)) q (encryptions i r es)"
proof (induction es arbitrary: i r)
  case Nil
  then show ?case by simp
next
  case (Cons e es)
  obtain p k where e: "e = (p, k)" by (cases e)
  show ?case
  proof (cases p)
    case Initiator
    let ?g = "next_encryption_iv i"
    show ?thesis
    proof (cases "counter ?g \<le> MAX_SAFE_INTEGER")
      case False
      then show ?thesis using e Initiator by (simp add: iv_generator_Inl)
    next
      case True
      let ?v = "be_bytes 4 0 @ be_bytes 8 (counter ?g)"
      have "log_ok (counter ?g + 1) (counter (next_encryption_iv r)) q
              (encryptions (i\<lparr>next_encryption_iv := ?g\<lparr>counter := counter ?g + 1\<rparr>\<rparr>) r es)"
        using Cons.IH[of "i\<lparr>next_encryption_iv := ?g\<lparr>counter := counter ?g + 1\<rparr>\<rparr>" r] Cons.prems
        by simp
      moreover have "entry_ok (counter ?g) (counter (next_encryption_iv r)) (Initiator, k, ?v)"
        using entry_ok_head[OF True, of Initiator _ "counter (next_encryption_iv r)"]
        by (simp add: fixed_field_of_def)
      moreover have "iv_counter ?v < counter ?g + 1"
        using True by (simp add: iv_counter_bytes)
      ultimately have "log_ok (counter ?g) (counter (next_encryption_iv r)) q
          ((Initiator, k, ?v) # encryptions (i\<lparr>next_encryption_iv := ?g\<lparr>counter := counter ?g + 1\<rparr>\<rparr>) r es)"
        using log_ok_Cons[of "counter ?g + 1" "counter (next_encryption_iv r)" q _
            "counter ?g" "counter (next_encryption_iv r)" Initiator k ?v]
        by simp
      then show ?thesis
        using e Initiator True Cons.prems
        by (simp add: iv_generator_Inr)
    qed
  next
    case Receiver
    let ?g = "next_encryption_iv r"
    show ?thesis
    proof (cases "counter ?g \<le> MAX_SAFE_INTEGER")
      case False
      then show ?thesis using e Receiver by (simp add: iv_generator_Inl)
    next
      case True
      let ?v = "be_bytes 4 1 @ be_bytes 8 (counter ?g)"
      have "log_ok (counter (next_encryption_iv i)) (counter ?g + 1) q
              (encryptions i (r\<lparr>next_encryption_iv := ?g\<lparr>counter := counter ?g + 1\<rparr>\<rparr>) es)"
        using Cons.IH[of i "r\<lparr>next_encryption_iv := ?g\<lparr>counter := counter ?g + 1\<rparr>\<rparr>"] Cons.prems
        by simp
      moreover have "entry_ok (counter (next_encryption_iv i)) (counter ?g) (Receiver, k, ?v)"
        using entry_ok_head[OF True, of Receiver "counter (next_encryption_iv i)"]
        by (simp add: fixed_field_of_def)
      moreover have "iv_counter ?v < counter ?g + 1"
        using True by (simp add: iv_counter_bytes)
      ultimately have "log_ok (counter (next_encryption_iv i)) (counter ?g) q
          ((Receiver, k, ?v) # encryptions i (r\<lparr>next_encryption_iv := ?g\<lparr>counter := counter ?g + 1\<rparr>\<rparr>) es)"
        using log_ok_Cons[of "counter (next_encryption_iv i)" "counter ?g + 1" q _
            "counter (next_encryption_iv i)" "counter ?g" Receiver k ?v]
        by simp
      then show ?thesis
        using e Receiver True Cons.prems
        by (simp add: iv_generator_Inr)
    qed
  qed
qed

text \<open>
  Claim C1. Over the lifetime of a connection, whatever the order in which the two parties
  encrypt and whatever key each encryption uses, no two encryptions share a (key, IV) pair;
  indeed no two share an IV. The initiator's IVs start with the fixed field 0 and the
  receiver's with 1, and the counters in the IVs of each party increase strictly from one
  of its encryptions to the next, across the handshake and the session key alike.
\<close>

theorem iv_unique_per_key:
  "distinct (map (\<lambda>e. (fst (snd e), snd (snd e))) (encryptions connect_ivs listen_ivs es))
   \<and> distinct (map (\<lambda>e. snd (snd e)) (encryptions connect_ivs listen_ivs es))
   \<and> list_all (\<lambda>e. take 4 (snd (snd e)) = [0, 0, 0, fixed_field_of (fst e)])
        (encryptions connect_ivs listen_ivs es)
   \<and> sorted_wrt (<) (map (\<lambda>e. iv_counter (snd (snd e)))
        (filter (\<lambda>e. fst e = q) (encryptions connect_ivs listen_ivs es)))"
proof -
  let ?l = "encryptions connect_ivs listen_ivs es"
  have ok: "log_ok 0 0 q ?l"
    using encryptions_invariant[of connect_ivs listen_ivs q es]
    by (simp add: connect_ivs_def listen_ivs_def iv_def)
  have d: "distinct (map (\<lambda>e. (iv_fixed_field (snd (snd e)), iv_counter (snd (snd e)))) ?l)"
    using ok by (simp add: log_ok_def)
  have "map (\<lambda>e. (iv_fixed_field (snd (snd e)), iv_counter (snd (snd e)))) ?l
        = map (\<lambda>v. (iv_fixed_field v, iv_counter v)) (map (\<lambda>e. snd (snd e)) ?l)"
    by simp
  with d have d1: "distinct (map (\<lambda>e. snd (snd e)) ?l)"
    using distinct_map_imp[of "\<lambda>v. (iv_fixed_field v, iv_counter v)" "map (\<lambda>e. snd (snd e)) ?l"]
    by simp
  have "map (\<lambda>e. snd (snd e)) ?l = map snd (map (\<lambda>e. (fst (snd e), snd (snd e))) ?l)"
    by simp
  with d1 have d2: "distinct (map (\<lambda>e. (fst (snd e), snd (snd e))) ?l)"
    using distinct_map_imp[of snd "map (\<lambda>e. (fst (snd e), snd (snd e))) ?l"]
    by simp
  have "list_all (entry_ok 0 0) ?l"
    using ok by (simp add: log_ok_def)
  then have f: "list_all (\<lambda>e. take 4 (snd (snd e)) = [0, 0, 0, fixed_field_of (fst e)]) ?l"
    by (simp add: list_all_iff entry_ok_def)
  show ?thesis
    using d1 d2 f ok by (simp add: log_ok_def)
qed

datatype aes_key = Handshake_key | Session_key

theorem iv_unique_per_key_witness:
  "encryptions connect_ivs listen_ivs
     [(Initiator, Handshake_key), (Receiver, Handshake_key), (Receiver, Handshake_key),
      (Initiator, Session_key), (Receiver, Session_key)]
   = [(Initiator, Handshake_key, [0, 0, 0, 0, 0, 0, 0, 0, 0, 0, 0, 0]),
      (Receiver, Handshake_key, [0, 0, 0, 1, 0, 0, 0, 0, 0, 0, 0, 0]),
      (Receiver, Handshake_key, [0, 0, 0, 1, 0, 0, 0, 0, 0, 0, 0, 1]),
      (Initiator, Session_key, [0, 0, 0, 0, 0, 0, 0, 0, 0, 0, 0, 1]),
      (Receiver, Session_key, [0, 0, 0, 1, 0, 0, 0, 0, 0, 0, 0, 2])]
   \<and> distinct (map (\<lambda>e. (fst (snd e), snd (snd e)))
        (encryptions connect_ivs listen_ivs
          [(Initiator, Handshake_key), (Receiver, Handshake_key), (Receiver, Handshake_key),
           (Initiator, Session_key), (Receiver, Session_key)]))"
proof -
  have "encryptions connect_ivs listen_ivs
     [(Initiator, Handshake_key), (Receiver, Handshake_key), (Receiver, Handshake_key),
      (Initiator, Session_key), (Receiver, Session_key)]
   = [(Initiator, Handshake_key, [0, 0, 0, 0, 0, 0, 0, 0, 0, 0, 0, 0]),
      (Receiver, Handshake_key, [0, 0, 0, 1, 0, 0, 0, 0, 0, 0, 0, 0]),
      (Receiver, Handshake_key, [0, 0, 0, 1, 0, 0, 0, 0, 0, 0, 0, 1]),
      (Initiator, Session_key, [0, 0, 0, 0, 0, 0, 0, 0, 0, 0, 0, 1]),
      (Receiver, Session_key, [0, 0, 0, 1, 0, 0, 0, 0, 0, 0, 0, 2])]"
    by (simp add: connect_ivs_def listen_ivs_def iv_def iv_generator_def MAX_SAFE_INTEGER_def ArrayBuffer_def replicate_12 setUint32_def Let_def)
  then show ?thesis
    using iv_unique_per_key[of "[(Initiator, Handshake_key), (Receiver, Handshake_key),
      (Receiver, Handshake_key), (Initiator, Session_key), (Receiver, Session_key)]" Initiator]
    by simp
qed

subsection \<open>Records (protocol.js, \<open>make_record\<close>)\<close>

text \<open>JSON values, as \<open>JSON.parse\<close> returns them and \<open>JSON.stringify\<close> takes them. Numbers
  are the integers; the engine itself only ever writes lengths and the version number.\<close>

datatype json =
    JNull
  | JBool bool
  | JNumber int
  | JString string
  | JArray "json list"
  | JObject "(string \<times> json) list"

text \<open>The value of a property of a message object.\<close>

datatype js =
    Undefined
  | Array_buffer buffer      \<comment> \<open>a value whose \<open>constructor\<close> is \<open>ArrayBuffer\<close>\<close>
  | Json json                \<comment> \<open>any other value, by what \<open>JSON.stringify\<close> makes of it\<close>

text \<open>The \<open>message\<close> argument: an object, by its own enumerable properties in the order
  of \<open>Object.keys\<close>, or a value whose \<open>typeof\<close> is not \<open>"object"\<close>.\<close>

datatype message =
    Object "(string \<times> js) list"
  | Not_an_object

record blob =
  blob_id :: string          \<comment> \<open>\<open>id\<close>\<close>
  blob_type :: string        \<comment> \<open>\<open>type\<close>\<close>
  blob_length :: nat         \<comment> \<open>\<open>length\<close>\<close>

text \<open>The identifier object. Every caller passes \<open>{type: ...}\<close>; \<open>make_record\<close> assigns
  \<open>blobs\<close>.\<close>

record seif_identifier =
  type :: string
  blobs :: "blob list"

definition blob_json :: "blob \<Rightarrow> json" where
  "blob_json b =
     JObject [(''id'', JString (blob_id b)), (''type'', JString (blob_type b)),
              (''length'', JNumber (int (blob_length b)))]"

definition identifier_json :: "seif_identifier \<Rightarrow> json" where
  "identifier_json i =
     JObject [(''type'', JString (type i)), (''blobs'', JArray (map blob_json (blobs i)))]"

text \<open>The callback given to \<open>map\<close>: it pushes the blob's description onto
  \<open>identifier.blobs\<close> and returns the blob's buffer. \<open>encode_json\<close>, which is
  \<open>TextEncoder.encode\<close> after \<open>JSON.stringify\<close>, is a parameter.\<close>

definition push_blob ::
  "(json \<Rightarrow> buffer) \<Rightarrow> blob list \<times> buffer list \<Rightarrow> string \<times> js \<Rightarrow> blob list \<times> buffer list" where
  "push_blob encode_json acc p =
     (case acc of (identifier_blobs, buffers) \<Rightarrow>
      case p of (key, v) \<Rightarrow>
        let (buffer, blob_type) =
              (case v of
                 Array_buffer b \<Rightarrow> (b, ''Buffer'')
               | Json j \<Rightarrow> (encode_json j, ''JSON'')
               | Undefined \<Rightarrow> ([], ''JSON''))
        in (identifier_blobs @ [\<lparr>blob_id = key, blob_type = blob_type, blob_length = length buffer\<rparr>],
            buffers @ [buffer]))"

text \<open>\<open>Object.keys(message).filter(...).map(...)\<close>, started from \<open>identifier.blobs = []\<close>:
  the blobs of the identifier and the blob buffers.\<close>

definition make_blobs :: "(json \<Rightarrow> buffer) \<Rightarrow> (string \<times> js) list \<Rightarrow> blob list \<times> buffer list" where
  "make_blobs encode_json properties =
     foldl (push_blob encode_json) ([], []) (filter (\<lambda>p. snd p \<noteq> Undefined) properties)"

text \<open>What a call of a function that is to return a Promise comes to: the function throws
  before it returns, or the Promise it has returned is rejected, or it is resolved.\<close>

datatype 'a promised =
    Throws error
  | Rejects error
  | Resolves 'a

text \<open>\<open>[...].map(encrypt_buffer)\<close> under \<open>Promise.all\<close>. An encryptor is a closure: it takes
  its state and a plaintext and gives what the call comes to, and its next state. \<open>map\<close>
  calls it on the buffers in order, before any Promise settles: an exception ends \<open>map\<close> at
  that buffer and is the exception of \<open>make_record\<close>, while after a rejection the
  remaining buffers are still passed to the encryptor. \<open>Promise.all\<close> is rejected with the
  reason of the first of the Promises to be rejected, which is taken to be the first in
  the list.\<close>

type_synonym 's encryptor = "'s \<Rightarrow> buffer \<Rightarrow> buffer promised \<times> 's"

fun encrypt_buffers :: "'s encryptor \<Rightarrow> buffer list \<Rightarrow> 's \<Rightarrow> buffer list promised \<times> 's" where
  "encrypt_buffers encrypt_buffer [] s = (Resolves [], s)"
| "encrypt_buffers encrypt_buffer (b # bs) s =
     (case encrypt_buffer s b of
        (Throws e, s') \<Rightarrow> (Throws e, s')
      | (Rejects e, s') \<Rightarrow>
          (case encrypt_buffers encrypt_buffer bs s' of
             (Throws e', s'') \<Rightarrow> (Throws e', s'')
           | (Rejects e', s'') \<Rightarrow> (Rejects e, s'')
           | (Resolves cs, s'') \<Rightarrow> (Rejects e, s''))
      | (Resolves c, s') \<Rightarrow>
          (case encrypt_buffers encrypt_buffer bs s' of
             (Throws e, s'') \<Rightarrow> (Throws e, s'')
           | (Rejects e, s'') \<Rightarrow> (Rejects e, s'')
           | (Resolves cs, s'') \<Rightarrow> (Resolves (c # cs), s'')))"

definition make_record ::
  "(json \<Rightarrow> buffer) \<Rightarrow> seif_identifier \<Rightarrow> message \<Rightarrow> 's encryptor \<Rightarrow> 's \<Rightarrow> buffer promised \<times> 's" where
  "make_record encode_json identifier message encrypt_buffer s =
     (case message of
        Not_an_object \<Rightarrow> (Throws Bad_message, s)
      | Object properties \<Rightarrow>
          let (identifier_blobs, blob_buffers) = make_blobs encode_json properties;
              identifier = identifier\<lparr>blobs := identifier_blobs\<rparr>;
              identifier_buffer = encode_json (identifier_json identifier)
          in if length identifier_buffer \<ge> 2 ^ 16 then (Throws Identifier_too_big, s)
             else
               (case encrypt_buffers encrypt_buffer (identifier_buffer # blob_buffers) s of
                  (Throws e, s') \<Rightarrow> (Throws e, s')
                | (Rejects e, s') \<Rightarrow> (Rejects e, s')
                | (Resolves encrypted_buffers, s') \<Rightarrow>
                    let length_buffer = ArrayBuffer 2;
                        length_buffer = setUint16 length_buffer 0 (length (hd encrypted_buffers));
                        record_buffers = length_buffer # encrypted_buffers
                    in (Resolves (foldl concat_buffers (hd record_buffers) (tl record_buffers)), s')))"

text \<open>The encryptors the engine passes to \<open>make_record\<close>: the identity of \<open>hello\<close>, and
  AES-GCM under a key with the next IV of a generator (\<open>auth_hello\<close> and the consumer's
  \<open>encrypt\<close>). The IV is drawn as the argument of the call, so that a generator that has run
  out throws. AES-GCM itself, \<open>crypto.subtle.encrypt\<close>, is a parameter.\<close>

definition cleartext :: "'s encryptor" where
  "cleartext s buffer = (Resolves buffer, s)"

definition aes_encryptor :: "('k \<Rightarrow> buffer \<Rightarrow> buffer \<Rightarrow> buffer) \<Rightarrow> 'k \<Rightarrow> iv_state encryptor" where
  "aes_encryptor aes_encrypt key g plain =
     (case iv_generator g of
        Inl e \<Rightarrow> (Throws e, g)
      | Inr (v, g') \<Rightarrow> (Resolves (aes_encrypt key v plain), g'))"

text \<open>A \<open>JSON.stringify\<close> for the witnesses below: the minimal form, for strings of
  printable ASCII characters other than the quote and the backslash, and for integers.\<close>

fun digit_chars :: "nat \<Rightarrow> string" where
  "digit_chars n =
     (if n < 10 then [''0123456789'' ! n]
      else digit_chars (n div 10) @ [''0123456789'' ! (n mod 10)])"

definition quote :: "string \<Rightarrow> string" where
  "quote s = CHR 0x22 # s @ [CHR 0x22]"

fun commas :: "string list \<Rightarrow> string" where
  "commas [] = []"
| "commas [x] = x"
| "commas (x # y # ys) = x @ CHR '','' # commas (y # ys)"

fun stringify :: "json \<Rightarrow> string" where
  "stringify JNull = ''null''"
| "stringify (JBool b) = (if b then ''true'' else ''false'')"
| "stringify (JNumber n) = (if n < 0 then CHR ''-'' # digit_chars (nat (- n)) else digit_chars (nat n))"
| "stringify (JString s) = quote s"
| "stringify (JArray vs) = CHR ''['' # commas (map stringify vs) @ '']''"
| "stringify (JObject ps) =
     CHR ''{'' # commas (map (\<lambda>p. quote (fst p) @ CHR '':'' # stringify (snd p)) ps) @ ''}''"

definition ascii_encode_json :: "json \<Rightarrow> buffer" where
  "ascii_encode_json v = map of_char (stringify v)"

text \<open>The specification's words for a record: for each non-undefined message field, the
  type is "Buffer" for a raw byte buffer and "JSON" otherwise, the plaintext of a JSON
  value is its UTF-8 serialisation, and the entry appended to \<open>identifier.blobs\<close> is
  \<open>{id, type, length}\<close>, in insertion order.\<close>

definition spec_plaintext :: "(json \<Rightarrow> buffer) \<Rightarrow> js \<Rightarrow> buffer" where
  "spec_plaintext encode_json v =
     (case v of Array_buffer b \<Rightarrow> b | Json j \<Rightarrow> encode_json j | Undefined \<Rightarrow> [])"

definition spec_type :: "js \<Rightarrow> string" where
  "spec_type v = (case v of Array_buffer b \<Rightarrow> ''Buffer'' | _ \<Rightarrow> ''JSON'')"

definition spec_fields :: "(string \<times> js) list \<Rightarrow> (string \<times> js) list" where
  "spec_fields properties = [p \<leftarrow> properties. snd p \<noteq> Undefined]"

definition spec_blobs :: "(json \<Rightarrow> buffer) \<Rightarrow> (string \<times> js) list \<Rightarrow> blob list" where
  "spec_blobs encode_json properties =
     map (\<lambda>p. \<lparr>blob_id = fst p, blob_type = spec_type (snd p),
                blob_length = length (spec_plaintext encode_json (snd p))\<rparr>)
       (spec_fields properties)"

lemma push_blob_eq:
  "push_blob encode_json (bl, bu) p =
     (bl @ [\<lparr>blob_id = fst p, blob_type = spec_type (snd p),
              blob_length = length (spec_plaintext encode_json (snd p))\<rparr>],
      bu @ [spec_plaintext encode_json (snd p)])"
  by (cases p; cases "snd p") (simp_all add: push_blob_def spec_type_def spec_plaintext_def)

lemma foldl_push_blob:
  "foldl (push_blob encode_json) (bl, bu) ps =
     (bl @ map (\<lambda>p. \<lparr>blob_id = fst p, blob_type = spec_type (snd p),
                       blob_length = length (spec_plaintext encode_json (snd p))\<rparr>) ps,
      bu @ map (\<lambda>p. spec_plaintext encode_json (snd p)) ps)"
  by (induction ps arbitrary: bl bu) (simp_all add: push_blob_eq)

lemma make_blobs_eq:
  "make_blobs encode_json properties =
     (spec_blobs encode_json properties,
      map (\<lambda>p. spec_plaintext encode_json (snd p)) (spec_fields properties))"
  by (simp add: make_blobs_def spec_blobs_def spec_fields_def foldl_push_blob)

lemma foldl_concat_buffers: "foldl concat_buffers a bs = a @ concat bs"
  by (induction bs arbitrary: a) (simp_all add: concat_buffers_def)

lemma be_bytes_2: "be_bytes 2 n = [n div 256 mod 256, n mod 256]"
  by (simp add: numeral_2_eq_2)

lemma replicate_2: "replicate 2 (0::nat) = [0, 0]"
  by (simp add: numeral_2_eq_2)

lemma setUint16_bytes: "setUint16 (ArrayBuffer 2) 0 n = be_bytes 2 n"
  unfolding setUint16_def ArrayBuffer_def replicate_2 be_bytes_2 by simp

lemma encrypt_buffers_length:
  "encrypt_buffers encrypt_buffer bs s = (Resolves cs, s') \<Longrightarrow> length cs = length bs"
  by (induction bs arbitrary: s cs) (auto split: prod.splits promised.splits)

text \<open>Below the bound of the guard, whatever the encryptor: the record is the length field
  of the encrypted identifier followed by the encrypted buffers, and \<open>make_record\<close> fails
  only as the encryptions fail.\<close>

lemma make_record_below_bound:
  assumes "length (encode_json (identifier_json (identifier\<lparr>blobs := fst (make_blobs encode_json properties)\<rparr>)))
           < 2 ^ 16"
  shows "make_record encode_json identifier (Object properties) encrypt_buffer s
         = (case encrypt_buffers encrypt_buffer
                   (encode_json (identifier_json (identifier\<lparr>blobs := fst (make_blobs encode_json properties)\<rparr>))
                    # snd (make_blobs encode_json properties)) s of
              (Throws e, s') \<Rightarrow> (Throws e, s')
            | (Rejects e, s') \<Rightarrow> (Rejects e, s')
            | (Resolves cs, s') \<Rightarrow> (Resolves (be_bytes 2 (length (hd cs)) @ concat cs), s'))"
proof -
  obtain bl bu where m: "make_blobs encode_json properties = (bl, bu)"
    by (cases "make_blobs encode_json properties")
  let ?b = "encode_json (identifier_json (identifier\<lparr>blobs := bl\<rparr>))"
  from assms m have l: "(65536 \<le> length ?b) = False"
    by simp
  obtain r s' where e: "encrypt_buffers encrypt_buffer (?b # bu) s = (r, s')"
    by (cases "encrypt_buffers encrypt_buffer (?b # bu) s")
  show ?thesis
    unfolding make_record_def
    by (cases r)
      (simp_all add: m l e Let_def foldl_concat_buffers setUint16_bytes concat_buffers_def
        del: be_bytes.simps encrypt_buffers.simps)
qed

lemma make_record_resolves:
  assumes "make_record encode_json identifier (Object properties) encrypt_buffer s = (Resolves record, s')"
  shows "\<exists>encrypted_identifier encrypted_blobs.
           encrypt_buffers encrypt_buffer
             (encode_json (identifier_json (identifier\<lparr>blobs := spec_blobs encode_json properties\<rparr>))
              # map (\<lambda>p. spec_plaintext encode_json (snd p)) (spec_fields properties)) s
             = (Resolves (encrypted_identifier # encrypted_blobs), s')
           \<and> record = be_bytes 2 (length encrypted_identifier) @ encrypted_identifier @ concat encrypted_blobs"
proof -
  let ?bs = "encode_json (identifier_json (identifier\<lparr>blobs := spec_blobs encode_json properties\<rparr>))
              # map (\<lambda>p. spec_plaintext encode_json (snd p)) (spec_fields properties)"
  from assms obtain cs where cs: "encrypt_buffers encrypt_buffer ?bs s = (Resolves cs, s')"
    and r: "record = foldl concat_buffers (setUint16 (ArrayBuffer 2) 0 (length (hd cs))) cs"
    by (auto simp add: make_record_def make_blobs_eq Let_def split: if_splits prod.splits promised.splits)
  from cs have "length cs = length ?bs" by (rule encrypt_buffers_length)
  then obtain c cs' where "cs = c # cs'" by (cases cs) auto
  with cs r show ?thesis
    by (simp add: foldl_concat_buffers setUint16_bytes concat_buffers_def)
qed

text \<open>The specification's words for encryption under AES-GCM with a generator: the buffers
  are encrypted in order, each with the IV of the next counter.\<close>

fun aes_buffers :: "('k \<Rightarrow> buffer \<Rightarrow> buffer \<Rightarrow> buffer) \<Rightarrow> 'k \<Rightarrow> nat \<Rightarrow> nat \<Rightarrow> buffer list \<Rightarrow> buffer list" where
  "aes_buffers aes_encrypt key f n [] = []"
| "aes_buffers aes_encrypt key f n (b # bs) =
     aes_encrypt key (be_bytes 4 f @ be_bytes 8 n) b # aes_buffers aes_encrypt key f (Suc n) bs"

lemma encrypt_buffers_aes:
  "counter g + length bs \<le> MAX_SAFE_INTEGER + 1 \<Longrightarrow>
   encrypt_buffers (aes_encryptor aes_encrypt key) bs g
   = (Resolves (aes_buffers aes_encrypt key (fixed_field g) (counter g) bs),
      g\<lparr>counter := counter g + length bs\<rparr>)"
proof (induction bs arbitrary: g)
  case Nil
  show ?case
    by simp
next
  case (Cons b bs)
  from Cons.prems have c: "counter g \<le> MAX_SAFE_INTEGER"
    by simp
  from Cons.prems have "counter (g\<lparr>counter := counter g + 1\<rparr>) + length bs \<le> MAX_SAFE_INTEGER + 1"
    by simp
  from Cons.IH[OF this] show ?case
    by (simp add: aes_encryptor_def iv_generator_Inr[OF c])
qed

text \<open>Stand-ins for the witnesses: an AES-GCM that appends a 16-byte tag (the ciphertext of
  \<open>crypto.subtle.encrypt\<close> is 16 bytes longer than the plaintext), and an encryptor that
  counts its calls.\<close>

definition tagged :: "'k \<Rightarrow> buffer \<Rightarrow> buffer \<Rightarrow> buffer" where
  "tagged key v plain = plain @ replicate 16 0"

definition counting :: "nat encryptor" where
  "counting n buffer = (Resolves buffer, n + 1)"

lemma length_commas2: "length (commas [a, b]) = length a + length b + 1"
  by simp

lemma length_commas3: "length (commas [a, b, c]) = length a + length b + length c + 2"
  by simp

lemma stringify_one_blob:
  "stringify (identifier_json \<lparr>type = t, blobs = [\<lparr>blob_id = k, blob_type = bt, blob_length = 1\<rparr>]\<rparr>)
   = ''{\"type\":\"'' @ t @ ''\",\"blobs\":[{\"id\":\"'' @ k @ ''\",\"type\":\"'' @ bt @ ''\",\"length\":1}]}''"
  by (simp add: identifier_json_def blob_json_def quote_def)

lemma length_one_blob:
  "length (ascii_encode_json (identifier_json
      \<lparr>type = ''Send'', blobs = [\<lparr>blob_id = k, blob_type = ''JSON'', blob_length = 1\<rparr>]\<rparr>))
   = 60 + length k"
  unfolding ascii_encode_json_def stringify_one_blob by simp

lemma make_blobs_one:
  "make_blobs ascii_encode_json [(k, Json (JNumber 1))]
   = ([\<lparr>blob_id = k, blob_type = ''JSON'', blob_length = 1\<rparr>], [[49]])"
  by (simp add: make_blobs_def push_blob_def ascii_encode_json_def)

text \<open>
  Claim C4. Whatever the encryptor and its state: building a record whose serialised
  identifier has exactly 65535 bytes is not refused, the record is the length field of the
  encrypted identifier followed by the encrypted buffers, and the build fails only if an
  encryption does; with AES-GCM under a key and a generator that has not run out it
  succeeds, with the encryptions under the next IVs. Building a record whose serialised
  identifier has 65536 bytes, or any length from \<open>2 ^ 16\<close> on, throws "Identifier too big."
  before \<open>make_record\<close> returns a Promise and before the encryptor is called: whatever the
  encryptor, its state is untouched.
\<close>

theorem make_record_identifier_bound:
  fixes encrypt_buffer :: "'s encryptor"
  assumes "identifier_buffer =
             encode_json (identifier_json (identifier\<lparr>blobs := fst (make_blobs encode_json properties)\<rparr>))"
    and "blob_buffers = snd (make_blobs encode_json properties)"
  shows "(length identifier_buffer = 65535 \<longrightarrow>
            make_record encode_json identifier (Object properties) encrypt_buffer s
              = (case encrypt_buffers encrypt_buffer (identifier_buffer # blob_buffers) s of
                   (Throws e, s') \<Rightarrow> (Throws e, s')
                 | (Rejects e, s') \<Rightarrow> (Rejects e, s')
                 | (Resolves cs, s') \<Rightarrow> (Resolves (be_bytes 2 (length (hd cs)) @ concat cs), s')))
       \<and> (length identifier_buffer = 65535 \<and> counter g + length blob_buffers \<le> MAX_SAFE_INTEGER \<longrightarrow>
            make_record encode_json identifier (Object properties) (aes_encryptor aes_encrypt key) g
              = (Resolves
                   (be_bytes 2 (length (aes_encrypt key (be_bytes 4 (fixed_field g) @ be_bytes 8 (counter g))
                                          identifier_buffer))
                    @ aes_encrypt key (be_bytes 4 (fixed_field g) @ be_bytes 8 (counter g)) identifier_buffer
                    @ concat (aes_buffers aes_encrypt key (fixed_field g) (counter g + 1) blob_buffers)),
                 g\<lparr>counter := counter g + 1 + length blob_buffers\<rparr>))
       \<and> (length identifier_buffer = 65536 \<longrightarrow>
            make_record encode_json identifier (Object properties) encrypt_buffer s
              = (Throws Identifier_too_big, s))
       \<and> (length identifier_buffer \<ge> 2 ^ 16 \<longrightarrow>
            make_record encode_json identifier (Object properties) encrypt_buffer s
              = (Throws Identifier_too_big, s))
       \<and> (length identifier_buffer < 2 ^ 16 \<longrightarrow>
            make_record encode_json identifier (Object properties) encrypt_buffer s
              = (case encrypt_buffers encrypt_buffer (identifier_buffer # blob_buffers) s of
                   (Throws e, s') \<Rightarrow> (Throws e, s')
                 | (Rejects e, s') \<Rightarrow> (Rejects e, s')
                 | (Resolves cs, s') \<Rightarrow> (Resolves (be_bytes 2 (length (hd cs)) @ concat cs), s')))"
proof -
  obtain bl bu where m: "make_blobs encode_json properties = (bl, bu)"
    by (cases "make_blobs encode_json properties")
  have big: "make_record encode_json identifier (Object properties) encrypt_buffer s
               = (Throws Identifier_too_big, s)"
    if "length identifier_buffer \<ge> 2 ^ 16"
    using that assms(1) m by (simp add: make_record_def)
  have small: "make_record encode_json identifier (Object properties) e s'
              = (case encrypt_buffers e (identifier_buffer # blob_buffers) s' of
                   (Throws e, s') \<Rightarrow> (Throws e, s')
                 | (Rejects e, s') \<Rightarrow> (Rejects e, s')
                 | (Resolves cs, s') \<Rightarrow> (Resolves (be_bytes 2 (length (hd cs)) @ concat cs), s'))"
    if "length identifier_buffer < 2 ^ 16" for e :: "'t encryptor" and s'
    using that make_record_below_bound[of encode_json properties "identifier" e s']
    unfolding assms by simp
  have aes: "make_record encode_json identifier (Object properties) (aes_encryptor aes_encrypt key) g
              = (Resolves
                   (be_bytes 2 (length (aes_encrypt key (be_bytes 4 (fixed_field g) @ be_bytes 8 (counter g))
                                          identifier_buffer))
                    @ aes_encrypt key (be_bytes 4 (fixed_field g) @ be_bytes 8 (counter g)) identifier_buffer
                    @ concat (aes_buffers aes_encrypt key (fixed_field g) (counter g + 1) blob_buffers)),
                 g\<lparr>counter := counter g + 1 + length blob_buffers\<rparr>)"
    if l: "length identifier_buffer < 2 ^ 16" and c: "counter g + length blob_buffers \<le> MAX_SAFE_INTEGER"
  proof -
    from c have "counter g + length (identifier_buffer # blob_buffers) \<le> MAX_SAFE_INTEGER + 1"
      by simp
    from encrypt_buffers_aes[OF this, of aes_encrypt key] show ?thesis
      unfolding small[OF l] by (simp del: be_bytes.simps)
  qed
  show ?thesis
    using big small[of encrypt_buffer s] aes by simp
qed

theorem make_record_identifier_bound_witness:
  "make_record ascii_encode_json \<lparr>type = ''Send'', blobs = []\<rparr>
       (Object [(replicate 65475 CHR ''a'', Json (JNumber 1))]) counting 0
     = (Resolves ([255, 255]
          @ ascii_encode_json (identifier_json \<lparr>type = ''Send'', blobs =
              [\<lparr>blob_id = replicate 65475 CHR ''a'', blob_type = ''JSON'', blob_length = 1\<rparr>]\<rparr>)
          @ [49]), 2)
   \<and> length (ascii_encode_json (identifier_json \<lparr>type = ''Send'', blobs =
              [\<lparr>blob_id = replicate 65475 CHR ''a'', blob_type = ''JSON'', blob_length = 1\<rparr>]\<rparr>)) = 65535
   \<and> make_record ascii_encode_json \<lparr>type = ''Send'', blobs = []\<rparr>
       (Object [(replicate 65476 CHR ''a'', Json (JNumber 1))]) counting 0
     = (Throws Identifier_too_big, 0)"
proof -
  let ?i = "\<lparr>type = ''Send'', blobs = []\<rparr>"
  let ?p = "\<lambda>n. [(replicate n CHR ''a'', Json (JNumber 1))]"
  let ?j = "\<lambda>n. ascii_encode_json (identifier_json \<lparr>type = ''Send'', blobs =
              [\<lparr>blob_id = replicate n CHR ''a'', blob_type = ''JSON'', blob_length = 1\<rparr>]\<rparr>)"
  have id: "ascii_encode_json (identifier_json
              (?i\<lparr>blobs := fst (make_blobs ascii_encode_json (?p n))\<rparr>)) = ?j n" for n
    by (simp add: make_blobs_one)
  have bl: "snd (make_blobs ascii_encode_json (?p n)) = [[49]]" for n
    by (simp add: make_blobs_one)
  have len: "length (?j n) = 60 + n" for n
    by (simp only: length_one_blob length_replicate)
  have field: "be_bytes 2 65535 = [255, 255]"
    by (simp add: be_bytes_2)
  have a: "make_record ascii_encode_json ?i (Object (?p 65475)) counting 0
           = (Resolves ([255, 255] @ ?j 65475 @ [49]), 2)"
    using make_record_identifier_bound[of "?j 65475" ascii_encode_json "?p 65475" ?i "[[49]]"
        counting 0 "iv 0" tagged "()", OF id[symmetric] bl[symmetric]] len[of 65475]
    by (simp add: counting_def field del: be_bytes.simps)
  have b: "make_record ascii_encode_json ?i (Object (?p 65476)) counting 0 = (Throws Identifier_too_big, 0)"
    using make_record_identifier_bound[of "?j 65476" ascii_encode_json "?p 65476" ?i "[[49]]"
        counting 0 "iv 0" tagged "()", OF id[symmetric] bl[symmetric]] len[of 65476]
    by simp
  from a b len[of 65475] show ?thesis
    by simp
qed

lemma make_record_one_blob:
  assumes "60 + length k < 2 ^ 16"
  shows "make_record ascii_encode_json \<lparr>type = ''Send'', blobs = []\<rparr>
           (Object [(k, Json (JNumber 1))]) encrypt_buffer s
         = (case encrypt_buffers encrypt_buffer
                  [ascii_encode_json (identifier_json \<lparr>type = ''Send'', blobs =
                     [\<lparr>blob_id = k, blob_type = ''JSON'', blob_length = 1\<rparr>]\<rparr>), [49]] s of
              (Throws e, s') \<Rightarrow> (Throws e, s')
            | (Rejects e, s') \<Rightarrow> (Rejects e, s')
            | (Resolves cs, s') \<Rightarrow> (Resolves (be_bytes 2 (length (hd cs)) @ concat cs), s'))"
proof -
  have "\<not> 2 ^ 16 \<le> length (ascii_encode_json (identifier_json \<lparr>type = ''Send'', blobs =
                     [\<lparr>blob_id = k, blob_type = ''JSON'', blob_length = 1\<rparr>]\<rparr>))"
    using assms by (simp only: length_one_blob not_le)
  then show ?thesis
    unfolding make_record_def
    by (simp add: make_blobs_one Let_def foldl_concat_buffers setUint16_bytes concat_buffers_def
        split: prod.splits promised.splits del: be_bytes.simps)
qed

text \<open>
  Claim C3, at an input where the code departs from it. The record is the two-byte
  big-endian length of the encrypted identifier, the encrypted identifier and the encrypted
  blobs (\<open>make_record_resolves\<close>, \<open>make_blobs_eq\<close>) as long as the encrypted identifier is
  shorter than \<open>2 ^ 16\<close> bytes. The guard of \<open>make_record\<close> bounds the plaintext identifier,
  and AES-GCM adds 16 bytes: for \<open>send({"aaa...a": 1})\<close> with a key of 65475 characters the
  identifier has 65535 bytes, its ciphertext 65551, and \<open>setUint16\<close> writes the length
  field 15.
\<close>

theorem make_record_length_field_wraps:
  "fst (make_record ascii_encode_json \<lparr>type = ''Send'', blobs = []\<rparr>
          (Object [(replicate 65475 CHR ''a'', Json (JNumber 1))])
          (aes_encryptor tagged ()) (iv 0))
     = Resolves ([0, 15]
            @ (ascii_encode_json (identifier_json \<lparr>type = ''Send'', blobs =
                 [\<lparr>blob_id = replicate 65475 CHR ''a'', blob_type = ''JSON'', blob_length = 1\<rparr>]\<rparr>)
               @ replicate 16 0)
            @ ([49] @ replicate 16 0))
   \<and> length (ascii_encode_json (identifier_json \<lparr>type = ''Send'', blobs =
                 [\<lparr>blob_id = replicate 65475 CHR ''a'', blob_type = ''JSON'', blob_length = 1\<rparr>]\<rparr>)
               @ replicate 16 0) = 65551
   \<and> getUint16 [0, 15] = 15"
proof -
  let ?k = "replicate 65475 CHR ''a''"
  let ?id = "ascii_encode_json (identifier_json \<lparr>type = ''Send'', blobs =
                 [\<lparr>blob_id = ?k, blob_type = ''JSON'', blob_length = 1\<rparr>]\<rparr>)"
  have len: "length ?id = 65535"
    by (simp only: length_one_blob length_replicate)
  have enc: "encrypt_buffers (aes_encryptor tagged ()) [?id, [49]] (iv 0)
             = (Resolves [?id @ replicate 16 0, [49] @ replicate 16 0], \<lparr>fixed_field = 0, counter = 2\<rparr>)"
    by (simp add: aes_encryptor_def iv_generator_def iv_def MAX_SAFE_INTEGER_def tagged_def Let_def)
  have "60 + length ?k < 2 ^ 16"
    by simp
  from make_record_one_blob[OF this, of "aes_encryptor tagged ()" "iv 0"]
  have "fst (make_record ascii_encode_json \<lparr>type = ''Send'', blobs = []\<rparr>
          (Object [(?k, Json (JNumber 1))]) (aes_encryptor tagged ()) (iv 0))
        = Resolves (be_bytes 2 (length (?id @ replicate 16 0)) @ (?id @ replicate 16 0) @ ([49] @ replicate 16 0))"
    by (simp only: enc prod.case promised.case fst_conv list.sel concat.simps append_Nil2 append_assoc)
  moreover have "be_bytes 2 (length (?id @ replicate 16 0)) = [0, 15]"
    by (simp only: length_append len length_replicate be_bytes_2) simp
  ultimately show ?thesis
    using len by (simp add: getUint16_def)
qed

subsection \<open>ECIES (elliptic.js, \<open>encrypt\<close> and \<open>decrypt\<close>)\<close>

text \<open>WebCrypto is the platform: the operations of \<open>crypto.subtle\<close> that the two functions
  call are parameters. \<open>'pub\<close> and \<open>'priv\<close> are the ECDH CryptoKeys; an AES-GCM CryptoKey is
  the raw key it was imported from. A rejected Promise is \<open>None\<close>.\<close>

record ('pub, 'priv) key_pair =
  publicKey :: 'pub
  privateKey :: 'priv

record ('pub, 'priv) subtle =
  exportKey_raw :: "'pub \<Rightarrow> buffer"                         \<comment> \<open>\<open>exportKey("raw", key)\<close>\<close>
  importKey_raw :: "buffer \<Rightarrow> 'pub option"                  \<comment> \<open>\<open>importKey("raw", buffer, {name: "ECDH", ...})\<close>\<close>
  deriveBits :: "'pub \<Rightarrow> 'priv \<Rightarrow> nat \<Rightarrow> buffer"            \<comment> \<open>\<open>deriveBits({name: "ECDH", public}, private, length)\<close>\<close>
  aes_gcm_encrypt :: "buffer \<Rightarrow> buffer \<Rightarrow> buffer \<Rightarrow> buffer"  \<comment> \<open>\<open>encrypt({name: "AES-GCM", iv}, key, plaintext)\<close>, by key, iv, plaintext\<close>
  aes_gcm_decrypt :: "buffer \<Rightarrow> buffer \<Rightarrow> buffer \<Rightarrow> buffer option"

definition keysize :: nat where
  "keysize = 521"

text \<open>\<open>new Uint8Array(12)\<close>.\<close>

definition ecies_iv :: buffer where
  "ecies_iv = replicate 12 0"

text \<open>\<open>2 * Math.ceil(keysize / 8) + 1\<close>.\<close>

definition nr_raw_key_bytes :: nat where
  "nr_raw_key_bytes = 2 * ((keysize + 7) div 8) + 1"

text \<open>\<open>encrypt(plaintext, public_key)\<close>. The key pair that \<open>generate_keypair()\<close> resolves to
  is the argument \<open>ephemeral\<close>. The ciphertext buffer is allocated with the sum of the two
  lengths and filled by two \<open>set\<close> calls, at offset 0 and at the length of the exported
  key.\<close>

definition ecies_encrypt ::
  "('pub, 'priv) subtle \<Rightarrow> ('pub, 'priv) key_pair \<Rightarrow> buffer \<Rightarrow> 'pub \<Rightarrow> buffer" where
  "ecies_encrypt subtle ephemeral plaintext public_key =
     (let ephemeral_public_key_buffer = exportKey_raw subtle (publicKey ephemeral);
          aes_key_buffer = deriveBits subtle public_key (privateKey ephemeral) 256;
          aes_key = aes_key_buffer;
          encrypted_buffer = aes_gcm_encrypt subtle aes_key ecies_iv plaintext;
          ciphertext_buffer =
            ArrayBuffer (length ephemeral_public_key_buffer + length encrypted_buffer);
          view = take 0 ciphertext_buffer @ ephemeral_public_key_buffer
                   @ drop (0 + length ephemeral_public_key_buffer) ciphertext_buffer;
          view = take (length ephemeral_public_key_buffer) view @ encrypted_buffer
                   @ drop (length ephemeral_public_key_buffer + length encrypted_buffer) view
      in view)"

text \<open>\<open>decrypt(ciphertext, private_key)\<close>.\<close>

definition ecies_decrypt ::
  "('pub, 'priv) subtle \<Rightarrow> buffer \<Rightarrow> 'priv \<Rightarrow> error + buffer" where
  "ecies_decrypt subtle ciphertext private_key =
     (case importKey_raw subtle (take nr_raw_key_bytes ciphertext) of
        None \<Rightarrow> Inl Operation_error
      | Some ephemeral_public_key \<Rightarrow>
          let aes_key_buffer = deriveBits subtle ephemeral_public_key private_key 256;
              aes_key = aes_key_buffer
          in (case aes_gcm_decrypt subtle aes_key ecies_iv (drop nr_raw_key_bytes ciphertext) of
                None \<Rightarrow> Inl Operation_error
              | Some plaintext \<Rightarrow> Inr plaintext))"

lemma nr_raw_key_bytes_133: "nr_raw_key_bytes = 133"
  by (simp add: nr_raw_key_bytes_def keysize_def)

lemma ecies_encrypt_eq:
  "ecies_encrypt subtle ephemeral plaintext public_key
   = exportKey_raw subtle (publicKey ephemeral)
     @ aes_gcm_encrypt subtle (deriveBits subtle public_key (privateKey ephemeral) 256) ecies_iv plaintext"
  by (simp add: ecies_encrypt_def Let_def ArrayBuffer_def)

text \<open>
  Claim C7. For every plaintext and recipient public key, ECIES encryption takes the
  ephemeral key pair from \<open>generate_keypair()\<close>, derives 256 bits by ECDH from the
  ephemeral private key and the recipient's public key, encrypts the plaintext with
  AES-GCM under these bits and the constant IV of twelve zero bytes, and returns the raw
  ephemeral public key followed by the ciphertext. On a platform whose raw P-521 public
  keys have 133 bytes and whose AES-GCM ciphertexts are 16 bytes longer than their
  plaintexts, the output has 133 + plaintext length + 16 bytes. Decryption imports exactly
  the first 133 bytes as the ephemeral key and decrypts the rest under the same IV.
\<close>

theorem ecies_layout:
  assumes "\<forall>k. length (exportKey_raw subtle k) = 133"
    and "\<forall>k v p. length (aes_gcm_encrypt subtle k v p) = length p + 16"
  shows "length (ecies_encrypt subtle ephemeral plaintext public_key) = 133 + length plaintext + 16
       \<and> take 133 (ecies_encrypt subtle ephemeral plaintext public_key)
           = exportKey_raw subtle (publicKey ephemeral)
       \<and> drop 133 (ecies_encrypt subtle ephemeral plaintext public_key)
           = aes_gcm_encrypt subtle (deriveBits subtle public_key (privateKey ephemeral) 256)
               (replicate 12 0) plaintext
       \<and> ecies_decrypt subtle ciphertext private_key
           = (case importKey_raw subtle (take 133 ciphertext) of
                None \<Rightarrow> Inl Operation_error
              | Some ephemeral_public_key \<Rightarrow>
                  (case aes_gcm_decrypt subtle (deriveBits subtle ephemeral_public_key private_key 256)
                          (replicate 12 0) (drop 133 ciphertext) of
                     None \<Rightarrow> Inl Operation_error
                   | Some plaintext \<Rightarrow> Inr plaintext))"
  using assms
  by (simp add: ecies_encrypt_eq ecies_decrypt_def nr_raw_key_bytes_133 ecies_iv_def Let_def
      cong: option.case_cong)

text \<open>A toy platform for the witness: a public key is a byte, exported as 133 copies of
  it; the shared secret of a public and a private byte is their sum; AES-GCM appends 16
  copies of the sum of key and IV as a tag.\<close>

definition toy_subtle :: "(nat, nat) subtle" where
  "toy_subtle =
     \<lparr>exportKey_raw = (\<lambda>k. replicate 133 k),
      importKey_raw = (\<lambda>b. if length b = 133 then Some (hd b) else None),
      deriveBits = (\<lambda>pub priv n. replicate (n div 8) ((pub + priv) mod 256)),
      aes_gcm_encrypt = (\<lambda>k v p. p @ replicate 16 (sum_list (k @ v) mod 256)),
      aes_gcm_decrypt = (\<lambda>k v c.
         if 16 \<le> length c \<and> drop (length c - 16) c = replicate 16 (sum_list (k @ v) mod 256)
         then Some (take (length c - 16) c) else None)\<rparr>"

theorem ecies_layout_witness:
  "length (ecies_encrypt toy_subtle \<lparr>publicKey = 7, privateKey = 7\<rparr> [1, 2, 3] 9) = 133 + 3 + 16
   \<and> take 133 (ecies_encrypt toy_subtle \<lparr>publicKey = 7, privateKey = 7\<rparr> [1, 2, 3] 9)
       = replicate 133 7"
proof -
  have a: "\<forall>k. length (exportKey_raw toy_subtle k) = 133"
    by (simp add: toy_subtle_def)
  have b: "\<forall>k v p. length (aes_gcm_encrypt toy_subtle k v p) = length p + 16"
    by (simp add: toy_subtle_def)
  show ?thesis
    using ecies_layout[OF a b, of "\<lparr>publicKey = 7, privateKey = 7\<rparr>" "[1, 2, 3]" 9]
    by (simp add: toy_subtle_def)
qed

subsection \<open>The consumer (protocol.js, \<open>make_consumer\<close>)\<close>

text \<open>A reason is \<open>undefined\<close> or a value. A waiter is the \<open>{resolve, reject}\<close> pair of one
  Promise returned by \<open>send\<close>, a connection the object that \<open>seif_connection\<close> holds; both
  are known by a number.\<close>

type_synonym reason = "error option"

type_synonym waiter = nat

type_synonym connection = nat

text \<open>What the engine does to the world outside it, in the order in which it does it, and
  among it the calls of \<open>close\<close> that a callback makes on the connection while it runs.\<close>

datatype event =
    Transport_send buffer                                  \<comment> \<open>\<open>transport_connection.send(record)\<close>\<close>
  | Transport_close                                        \<comment> \<open>\<open>transport_connection.close()\<close>, \<open>close_transport()\<close>\<close>
  | Transport_connect js                                   \<comment> \<open>\<open>transport_connect(address, ...)\<close>\<close>
  | Resolve waiter                                         \<comment> \<open>\<open>pending.resolve()\<close>\<close>
  | Reject waiter reason                                   \<comment> \<open>\<open>pending.reject(reason)\<close>\<close>
  | Called_on_open connection "buffer option" js js        \<comment> \<open>the caller's \<open>on_open\<close>\<close>
  | Called_on_message "connection option" "(string \<times> js) list"
  | Called_on_close "connection option" reason             \<comment> \<open>the caller's \<open>on_close\<close>\<close>
  | Called_add_acquaintance js buffer                      \<comment> \<open>\<open>store.add_acquaintance\<close>, by address and key\<close>
  | Called_hello buffer js js                              \<comment> \<open>\<open>hello\<close>, by receiver key, connection info, hello value\<close>
  | Connection_close reason                                \<comment> \<open>a callback calls \<open>close(reason)\<close> of the connection object\<close>

text \<open>An asynchronous operation that the incoming side has started and whose handlers
  have not run yet, and what its Promise settles to.\<close>

datatype operation =
    Decrypt_identifier buffer "buffer option" buffer       \<comment> \<open>\<open>decrypt(take(identifier_length))\<close>: ciphertext, key, IV\<close>
  | Decrypt_blob buffer "buffer option" buffer             \<comment> \<open>\<open>decrypt(take(ciphertext_length))\<close>\<close>
  | Auth_hello "(string \<times> js) list"                      \<comment> \<open>\<open>auth_hello(crypto, message, ...)\<close>\<close>
  | Decrypt_session_key "(string \<times> js) list"             \<comment> \<open>\<open>elliptic.decrypt(message.sessionKey, ...).then(aes.import_key)\<close>\<close>
  | Import_redirect_key "(string \<times> js) list"             \<comment> \<open>\<open>elliptic.import_public_key(hex.decode(message.publicKey))\<close>\<close>

datatype outcome =
    Rejected error
  | Decrypted buffer
  | Auth_hello_result buffer buffer js buffer              \<comment> \<open>\<open>auth_hello_record\<close>, \<open>session_key\<close>, \<open>hello_value\<close>, \<open>initiator_public_key\<close>\<close>
  | Imported_key buffer

text \<open>A callback on the outgoing queue: the four closures that \<open>send\<close>, \<open>status_send\<close>,
  \<open>redirect\<close> and \<open>receive\<close> pass to \<open>enqueue\<close>. The one of \<open>redirect\<close> holds the address, what
  \<open>export_public_key\<close> followed by \<open>hex.encode\<close> will give for its public key (a rejection or
  the hexadecimal text), \<open>permanent\<close> and the redirect context.\<close>

datatype task =
    Send_task waiter message
  | Status_send_task message
  | Redirect_task js "error + string" js js
  | Acknowledge_task

text \<open>The variables of one consumer, the world \<open>'x\<close> of its caller, and the events so far.
  \<open>transport_connection\<close> is whether the variable is defined; \<open>handshake_key\<close> is the
  parameter, defined for an initiator only.\<close>

record 'x consumer =
  transport_connection :: bool
  handshake_key :: "buffer option"
  ivs :: iv_pair
  session_key :: "buffer option"
  seif_connection :: "connection option"
  buffer :: buffer
  busy :: bool
  current_identifier :: "seif_identifier option"     \<comment> \<open>\<open>identifier\<close>\<close>
  identifier_length :: "nat option"
  blob_buffers :: "buffer list"
  queue :: "task list"
  pending_acks :: "waiter list"
  in_flight :: "operation option"                  \<comment> \<open>the operation whose handlers are still to run\<close>
  connection_object :: connection                    \<comment> \<open>the object that \<open>seif_connection\<close> will hold\<close>
  world :: 'x
  trace :: "event list"

text \<open>How a function of the incoming side ends: it returns, it returns the result of a
  call of \<open>consume()\<close> that is still to be made, or it throws.\<close>

datatype 'x ending =
    Returned "'x consumer"
  | Consume "'x consumer"
  | Thrown error "'x consumer"

text \<open>The callbacks given to \<open>make_consumer\<close>. \<open>on_open\<close>, \<open>on_message\<close> and \<open>on_close\<close> are
  code of the caller: they change the caller's world and give, in order, what they do while
  they run. That is what they do to the outside and, as they hold the connection object,
  their calls of its \<open>close\<close>, which takes effect at once. (Its \<open>send\<close>, \<open>status_send\<close> and
  \<open>redirect\<close> only chain a task to the queue: a callback that calls them is a call made
  after it.) \<open>on_redirect\<close>, which \<open>connect\<close> defines and \<open>listen\<close> leaves undefined, calls
  back into the consumer.\<close>

record 'x callbacks =
  on_open :: "connection \<Rightarrow> buffer option \<Rightarrow> js \<Rightarrow> js \<Rightarrow> 'x \<Rightarrow> event list \<times> 'x"
  on_message :: "connection option \<Rightarrow> (string \<times> js) list \<Rightarrow> 'x \<Rightarrow> event list \<times> 'x"
  on_close :: "connection option \<Rightarrow> reason \<Rightarrow> 'x \<Rightarrow> event list \<times> 'x"
  on_redirect ::
    "(connection option \<Rightarrow> js \<Rightarrow> buffer \<Rightarrow> js \<Rightarrow> js \<Rightarrow> 'x consumer \<Rightarrow> 'x ending) option"

text \<open>The built-ins and helpers the consumer is parameterised by: \<open>encode_json\<close> and
  \<open>decode_json\<close> (\<open>None\<close> when \<open>JSON.parse\<close> throws), the latter also as it reads an
  identifier; AES-GCM encryption by key, IV and plaintext; \<open>hex.decode\<close>.\<close>

record platform =
  encode :: "json \<Rightarrow> buffer"
  decode :: "buffer \<Rightarrow> json option"
  decode_identifier :: "buffer \<Rightarrow> seif_identifier option"
  aes_encrypt :: "buffer \<Rightarrow> buffer \<Rightarrow> buffer \<Rightarrow> buffer"
  hex_decode :: "string \<Rightarrow> buffer"

definition emit :: "event list \<Rightarrow> 'x consumer \<Rightarrow> 'x consumer" where
  "emit es s = s\<lparr>trace := trace s @ es\<rparr>"

text \<open>\<open>close(reason)\<close> of the connection object, as a callback calls it. It is
  \<open>destroy(reason, true)\<close>, which calls no callback (\<open>destroy_no_longer_required\<close> below): on a
  consumer that still has its transport connection, the waiters are rejected and the
  transport is closed.\<close>

definition connection_close :: "reason \<Rightarrow> 'x consumer \<Rightarrow> 'x consumer" where
  "connection_close reason s =
     (if transport_connection s then
        let s = emit (map (\<lambda>pending. Reject pending reason) (pending_acks s)) s;
            s = emit [Transport_close] s
        in s\<lparr>transport_connection := False\<rparr>
      else s)"

text \<open>One thing a callback does while it runs.\<close>

definition act :: "event \<Rightarrow> 'x consumer \<Rightarrow> 'x consumer" where
  "act e s =
     (case e of
        Connection_close reason \<Rightarrow> connection_close reason (emit [e] s)
      | _ \<Rightarrow> emit [e] s)"

text \<open>A call of one of the caller's callbacks.\<close>

definition call :: "('x \<Rightarrow> event list \<times> 'x) \<Rightarrow> 'x consumer \<Rightarrow> 'x consumer" where
  "call f s = (case f (world s) of (es, w) \<Rightarrow> foldl (\<lambda>s e. act e s) (s\<lparr>world := w\<rparr>) es)"

text \<open>\<open>make_consumer\<close>: the variables as they are initialised.\<close>

definition make_consumer ::
  "iv_state \<Rightarrow> iv_state \<Rightarrow> buffer option \<Rightarrow> connection \<Rightarrow> 'x \<Rightarrow> event list \<Rightarrow> 'x consumer" where
  "make_consumer enc dec the_handshake_key c w t =
     \<lparr>transport_connection = True,
      handshake_key = the_handshake_key,
      ivs = \<lparr>next_encryption_iv = enc, next_decryption_iv = dec\<rparr>,
      session_key = None,
      seif_connection = None,
      buffer = ArrayBuffer 0,
      busy = False,
      current_identifier = None,
      identifier_length = None,
      blob_buffers = [],
      queue = [],
      pending_acks = [],
      in_flight = None,
      connection_object = c,
      world = w,
      trace = t\<rparr>"

text \<open>\<open>destroy(reason, situation_option)\<close>. The option is \<open>undefined\<close> (there was a
  problem), \<open>true\<close> (the connection is no longer required) or \<open>false\<close> (it has already been
  closed).\<close>

definition destroy ::
  "'x callbacks \<Rightarrow> reason \<Rightarrow> bool option \<Rightarrow> 'x consumer \<Rightarrow> 'x consumer" where
  "destroy cb reason situation_option s =
     (if transport_connection s then
        let s = emit (map (\<lambda>pending. Reject pending reason) (pending_acks s)) s;
            s = (if situation_option \<noteq> Some False then emit [Transport_close] s else s);
            s = (if situation_option = None
                 then call (on_close cb (seif_connection s) reason) s else s)
        in s\<lparr>transport_connection := False\<rparr>
      else s)"

text \<open>The callbacks of a caller that does nothing but be called.\<close>

definition logging :: "'x callbacks" where
  "logging =
     \<lparr>on_open = (\<lambda>c k v i w. ([Called_on_open c k v i], w)),
      on_message = (\<lambda>c m w. ([Called_on_message c m], w)),
      on_close = (\<lambda>c r w. ([Called_on_close c r], w)),
      on_redirect = None\<rparr>"

text \<open>What a callback can change in the consumer: its world, the events and, by closing, the
  transport connection.\<close>

lemma act_keeps [simp]:
  "handshake_key (act e s) = handshake_key s"
  "ivs (act e s) = ivs s"
  "session_key (act e s) = session_key s"
  "seif_connection (act e s) = seif_connection s"
  "buffer (act e s) = buffer s"
  "busy (act e s) = busy s"
  "current_identifier (act e s) = current_identifier s"
  "identifier_length (act e s) = identifier_length s"
  "blob_buffers (act e s) = blob_buffers s"
  "queue (act e s) = queue s"
  "pending_acks (act e s) = pending_acks s"
  "in_flight (act e s) = in_flight s"
  "connection_object (act e s) = connection_object s"
  "world (act e s) = world s"
  by (cases e; simp add: act_def connection_close_def emit_def Let_def)+

lemma acts_keep [simp]:
  "handshake_key (foldl (\<lambda>s e. act e s) s es) = handshake_key s"
  "ivs (foldl (\<lambda>s e. act e s) s es) = ivs s"
  "session_key (foldl (\<lambda>s e. act e s) s es) = session_key s"
  "seif_connection (foldl (\<lambda>s e. act e s) s es) = seif_connection s"
  "buffer (foldl (\<lambda>s e. act e s) s es) = buffer s"
  "busy (foldl (\<lambda>s e. act e s) s es) = busy s"
  "current_identifier (foldl (\<lambda>s e. act e s) s es) = current_identifier s"
  "identifier_length (foldl (\<lambda>s e. act e s) s es) = identifier_length s"
  "blob_buffers (foldl (\<lambda>s e. act e s) s es) = blob_buffers s"
  "queue (foldl (\<lambda>s e. act e s) s es) = queue s"
  "pending_acks (foldl (\<lambda>s e. act e s) s es) = pending_acks s"
  "in_flight (foldl (\<lambda>s e. act e s) s es) = in_flight s"
  "connection_object (foldl (\<lambda>s e. act e s) s es) = connection_object s"
  "world (foldl (\<lambda>s e. act e s) s es) = world s"
  by (induction es arbitrary: s; simp)+

lemma call_keeps [simp]:
  "handshake_key (call f s) = handshake_key s"
  "ivs (call f s) = ivs s"
  "session_key (call f s) = session_key s"
  "seif_connection (call f s) = seif_connection s"
  "buffer (call f s) = buffer s"
  "busy (call f s) = busy s"
  "current_identifier (call f s) = current_identifier s"
  "identifier_length (call f s) = identifier_length s"
  "blob_buffers (call f s) = blob_buffers s"
  "queue (call f s) = queue s"
  "pending_acks (call f s) = pending_acks s"
  "in_flight (call f s) = in_flight s"
  "connection_object (call f s) = connection_object s"
  by (simp_all add: call_def split: prod.splits)

lemma act_closed: "\<not> transport_connection s \<Longrightarrow> act e s = emit [e] s"
  by (cases e) (simp_all add: act_def connection_close_def emit_def)

lemma acts_closed: "\<not> transport_connection s \<Longrightarrow> foldl (\<lambda>s e. act e s) s es = emit es s"
proof (induction es arbitrary: s)
  case Nil
  show ?case
    by (simp add: emit_def)
next
  case (Cons e es)
  from Cons.prems have "\<not> transport_connection (emit [e] s)"
    by (simp add: emit_def)
  from Cons.IH[OF this] Cons.prems show ?case
    by (simp add: act_closed emit_def)
qed

lemma call_closed:
  "\<not> transport_connection s \<Longrightarrow>
   call f s = (case f (world s) of (es, w) \<Rightarrow> s\<lparr>world := w, trace := trace s @ es\<rparr>)"
  by (simp add: call_def acts_closed emit_def split: prod.splits)

lemma act_trace: "\<exists>es. trace (act e s) = trace s @ es"
  by (cases e) (simp_all add: act_def connection_close_def emit_def Let_def)

lemma acts_trace: "\<exists>fs. trace (foldl (\<lambda>s e. act e s) s es) = trace s @ fs"
proof (induction es arbitrary: s)
  case Nil
  show ?case
    by simp
next
  case (Cons e es)
  from act_trace[of e s] obtain a where a: "trace (act e s) = trace s @ a"
    by blast
  from Cons[of "act e s"] obtain b where "trace (foldl (\<lambda>s e. act e s) (act e s) es) = trace (act e s) @ b"
    by blast
  with a show ?case
    by simp
qed

lemma call_trace: "\<exists>es. trace (call f s) = trace s @ es"
proof -
  obtain es w where f: "f (world s) = (es, w)"
    by (cases "f (world s)")
  from acts_trace[of "s\<lparr>world := w\<rparr>" es] f show ?thesis
    by (simp add: call_def)
qed

lemma act_transport_connection: "transport_connection (act e s) \<Longrightarrow> transport_connection s"
  by (cases e) (simp_all add: act_def connection_close_def emit_def Let_def split: if_splits)

lemma acts_transport_connection:
  "transport_connection (foldl (\<lambda>s e. act e s) s es) \<Longrightarrow> transport_connection s"
proof (induction es arbitrary: s)
  case Nil
  then show ?case
    by simp
next
  case (Cons e es)
  from Cons.IH[of "act e s"] Cons.prems have "transport_connection (act e s)"
    by simp
  then show ?case
    by (rule act_transport_connection)
qed

lemma call_transport_connection: "transport_connection (call f s) \<Longrightarrow> transport_connection s"
proof -
  assume a: "transport_connection (call f s)"
  obtain es w where f: "f (world s) = (es, w)"
    by (cases "f (world s)")
  from a f acts_transport_connection[of "s\<lparr>world := w\<rparr>" es] show ?thesis
    by (simp add: call_def)
qed

text \<open>The consumer's \<open>encrypt\<close>: \<open>aes.encrypt(plain, session_key, next_encryption_iv())\<close>, as
  an encryptor whose state is the generator. The generator throws when it has run out;
  WebCrypto rejects a key that is undefined, after the IV has been drawn.\<close>

definition encrypt :: "platform \<Rightarrow> buffer option \<Rightarrow> iv_state encryptor" where
  "encrypt P the_session_key g plain =
     (case iv_generator g of
        Inl e \<Rightarrow> (Throws e, g)
      | Inr (v, g') \<Rightarrow>
          (case the_session_key of
             None \<Rightarrow> (Rejects Type_error, g')
           | Some k \<Rightarrow> (Resolves (aes_encrypt P k v plain), g')))"

text \<open>With the session key the consumer's \<open>encrypt\<close> is the AES-GCM encryptor. Without it
  every Promise is rejected, and as \<open>map\<close> goes through all the buffers the generator has
  been called once for each of them.\<close>

lemma encrypt_with_key: "encrypt P (Some k) = aes_encryptor (aes_encrypt P) k"
  by (rule ext, rule ext) (simp add: encrypt_def aes_encryptor_def split: sum.splits)

lemma encrypt_buffers_without_key:
  "bs \<noteq> [] \<Longrightarrow> counter g + length bs \<le> MAX_SAFE_INTEGER + 1 \<Longrightarrow>
   encrypt_buffers (encrypt P None) bs g
   = (Rejects Type_error, g\<lparr>counter := counter g + length bs\<rparr>)"
proof (induction bs arbitrary: g)
  case Nil
  then show ?case
    by simp
next
  case (Cons b bs)
  from Cons.prems have c: "counter g \<le> MAX_SAFE_INTEGER"
    by simp
  show ?case
  proof (cases bs)
    case Nil
    then show ?thesis
      by (simp add: encrypt_def iv_generator_Inr[OF c])
  next
    case (Cons b' bs')
    with Cons.prems have "bs \<noteq> []"
      and "counter (g\<lparr>counter := counter g + 1\<rparr>) + length bs \<le> MAX_SAFE_INTEGER + 1"
      by simp_all
    from Cons.IH[OF this] show ?thesis
      by (simp add: encrypt_def iv_generator_Inr[OF c])
  qed
qed

text \<open>\<open>make_record(identifier, message, encrypt)\<close> inside the consumer.\<close>

definition consumer_make_record ::
  "platform \<Rightarrow> string \<Rightarrow> message \<Rightarrow> 'x consumer \<Rightarrow> buffer promised \<times> 'x consumer" where
  "consumer_make_record P record_type message s =
     (case make_record (encode P) \<lparr>type = record_type, blobs = []\<rparr> message
             (encrypt P (session_key s)) (next_encryption_iv (ivs s)) of
        (result, g) \<Rightarrow> (result, s\<lparr>ivs := (ivs s)\<lparr>next_encryption_iv := g\<rparr>\<rparr>))"

text \<open>The body of each callback on the queue. The one of \<open>redirect\<close> calls \<open>make_record\<close>
  in a handler of the Promise of \<open>export_public_key\<close>, where an exception is a
  rejection.\<close>

fun callback :: "platform \<Rightarrow> task \<Rightarrow> 'x consumer \<Rightarrow> buffer promised \<times> 'x consumer" where
  "callback P (Send_task w message) s =
     consumer_make_record P ''Send'' message (s\<lparr>pending_acks := pending_acks s @ [w]\<rparr>)"
| "callback P (Status_send_task message) s = consumer_make_record P ''StatusSend'' message s"
| "callback P (Redirect_task address exported permanent redirect_context) s =
     (case exported of
        Inl e \<Rightarrow> (Rejects e, s)
      | Inr public_key_hex \<Rightarrow>
          (case consumer_make_record P ''Redirect''
                  (Object [(''address'', address), (''publicKey'', Json (JString public_key_hex)),
                           (''permanent'', permanent), (''redirectContext'', redirect_context)]) s of
             (Throws e, s) \<Rightarrow> (Rejects e, s)
           | (Rejects e, s) \<Rightarrow> (Rejects e, s)
           | (Resolves record, s) \<Rightarrow> (Resolves record, s)))"
| "callback P Acknowledge_task s = consumer_make_record P ''Acknowledge'' (Object []) s"

text \<open>\<open>enqueue(callback)\<close> chains the task after the queue. The queue is a Promise chain:
  a task starts when the one before it has sent its record or failed.\<close>

definition enqueue :: "task \<Rightarrow> 'x consumer \<Rightarrow> 'x consumer" where
  "enqueue t s = s\<lparr>queue := queue s @ [t]\<rparr>"

text \<open>The function that \<open>enqueue\<close> chains, run for the task at the head of the queue. The
  callback and the handler of its record run as one step. An exception of the callback and
  a rejection of its Promise both reach \<open>.catch(destroy)\<close>.\<close>

definition run_task :: "platform \<Rightarrow> 'x callbacks \<Rightarrow> 'x consumer \<Rightarrow> 'x consumer" where
  "run_task P cb s =
     (case queue s of
        [] \<Rightarrow> s
      | t # ts \<Rightarrow>
          let s = s\<lparr>queue := ts\<rparr>
          in if transport_connection s then
               (case callback P t s of
                  (Throws e, s) \<Rightarrow> destroy cb (Some e) None s
                | (Rejects e, s) \<Rightarrow> destroy cb (Some e) None s
                | (Resolves record, s) \<Rightarrow>
                    if transport_connection s then emit [Transport_send record] s else s)
             else s)"

text \<open>The methods of the connection object: \<open>send\<close> (the new Promise is the waiter \<open>w\<close>),
  \<open>status_send\<close>, \<open>redirect\<close> (of a listener's connection only) and \<open>close\<close>; and
  \<open>transport_closed\<close> of the consumer.\<close>

definition send :: "waiter \<Rightarrow> message \<Rightarrow> 'x consumer \<Rightarrow> 'x consumer" where
  "send w message s = enqueue (Send_task w message) s"

definition status_send :: "message \<Rightarrow> 'x consumer \<Rightarrow> 'x consumer" where
  "status_send message s = enqueue (Status_send_task message) s"

definition redirect :: "js \<Rightarrow> error + string \<Rightarrow> js \<Rightarrow> js \<Rightarrow> 'x consumer \<Rightarrow> 'x consumer" where
  "redirect address exported permanent redirect_context s =
     enqueue (Redirect_task address exported permanent redirect_context) s"

definition close :: "'x callbacks \<Rightarrow> reason \<Rightarrow> 'x consumer \<Rightarrow> 'x consumer" where
  "close cb reason s = destroy cb reason (Some True) s"

definition transport_closed :: "'x callbacks \<Rightarrow> reason \<Rightarrow> 'x consumer \<Rightarrow> 'x consumer" where
  "transport_closed cb reason s = destroy cb reason (Some False) s"

text \<open>\<open>take(nr_bytes)\<close>.\<close>

definition take_bytes :: "nat \<Rightarrow> 'x consumer \<Rightarrow> buffer \<times> 'x consumer" where
  "take_bytes nr_bytes s = (take nr_bytes (buffer s), s\<lparr>buffer := drop nr_bytes (buffer s)\<rparr>)"

text \<open>\<open>decrypt(cipher)\<close>, once \<open>busy\<close> is set and the bytes are taken: the IV is drawn, which
  may throw, and the operation is under way.\<close>

definition decrypt ::
  "(buffer \<Rightarrow> buffer option \<Rightarrow> buffer \<Rightarrow> operation) \<Rightarrow> buffer \<Rightarrow> 'x consumer \<Rightarrow> 'x ending" where
  "decrypt kind cipher s =
     (case iv_generator (next_decryption_iv (ivs s)) of
        Inl e \<Rightarrow> Thrown e s
      | Inr (v, g) \<Rightarrow>
          Returned (s\<lparr>ivs := (ivs s)\<lparr>next_decryption_iv := g\<rparr>,
                      in_flight := Some (kind cipher
                        (case session_key s of Some k \<Rightarrow> Some k | None \<Rightarrow> handshake_key s) v)\<rparr>))"

text \<open>Properties of a message object: \<open>message[id]\<close> and \<open>message[id] = value\<close>.\<close>

fun get :: "(string \<times> js) list \<Rightarrow> string \<Rightarrow> js" where
  "get [] k = Undefined"
| "get ((k', v) # ps) k = (if k' = k then v else get ps k)"

fun set_property :: "string \<Rightarrow> js \<Rightarrow> (string \<times> js) list \<Rightarrow> (string \<times> js) list" where
  "set_property k v [] = [(k, v)]"
| "set_property k v ((k', v') # ps) =
     (if k' = k then (k, v) # ps else (k', v') # set_property k v ps)"

text \<open>The \<open>forEach\<close> of \<open>receive\<close>, which fills \<open>message\<close> from the blobs; \<open>blob_nr\<close> counts
  along \<open>blob_buffers\<close>. A buffer that is missing reads as \<open>undefined\<close>, which \<open>decode_json\<close>
  cannot parse.\<close>

fun fill_message ::
  "platform \<Rightarrow> blob list \<Rightarrow> buffer list \<Rightarrow> (string \<times> js) list \<Rightarrow> error + (string \<times> js) list" where
  "fill_message P [] buffers message = Inr message"
| "fill_message P (blob # rest) buffers message =
     (if blob_type blob = ''JSON'' then
        (case buffers of
           [] \<Rightarrow> Inl Syntax_error
         | b # bs \<Rightarrow>
             (case decode P b of
                None \<Rightarrow> Inl Syntax_error
              | Some j \<Rightarrow> fill_message P rest bs (set_property (blob_id blob) (Json j) message)))
      else
        (case buffers of
           [] \<Rightarrow> fill_message P rest [] (set_property (blob_id blob) Undefined message)
         | b # bs \<Rightarrow> fill_message P rest bs (set_property (blob_id blob) (Array_buffer b) message)))"

text \<open>Whether a value has a \<open>slice\<close> method (\<open>elliptic.decrypt\<close> calls it on the ciphertext
  before anything asynchronous), and whether it is a string (\<open>hex.decode\<close> calls \<open>replace\<close>
  on it).\<close>

fun has_slice :: "js \<Rightarrow> bool" where
  "has_slice (Array_buffer b) = True"
| "has_slice (Json (JString s)) = True"
| "has_slice (Json (JArray vs)) = True"
| "has_slice v = False"

text \<open>\<open>receive()\<close>.\<close>

definition receive :: "platform \<Rightarrow> 'x callbacks \<Rightarrow> 'x consumer \<Rightarrow> 'x ending" where
  "receive P cb s =
     (case current_identifier s of
        None \<Rightarrow> Thrown Type_error s
      | Some identifier \<Rightarrow>
          (case fill_message P (blobs identifier) (blob_buffers s) [] of
             Inl exception \<Rightarrow> Returned (destroy cb (Some exception) None s)
           | Inr message \<Rightarrow>
               let s = s\<lparr>current_identifier := None, identifier_length := None, blob_buffers := []\<rparr>
               in if session_key s = None then
                    if handshake_key s = None then
                      let s = s\<lparr>busy := True\<rparr>
                      in if get message ''version'' = Json (JNumber 0)
                            \<and> \<not> has_slice (get message ''handshakeKey'')
                         then Thrown Type_error s
                         else Returned (s\<lparr>in_flight := Some (Auth_hello message)\<rparr>)
                    else
                      let s = s\<lparr>busy := True\<rparr>
                      in if has_slice (get message ''sessionKey'')
                         then Returned (s\<lparr>in_flight := Some (Decrypt_session_key message)\<rparr>)
                         else Thrown Type_error s
                  else if type identifier = ''Redirect'' then
                    let s = s\<lparr>busy := True\<rparr>
                    in (case get message ''publicKey'' of
                          Json (JString h) \<Rightarrow> Returned (s\<lparr>in_flight := Some (Import_redirect_key message)\<rparr>)
                        | _ \<Rightarrow> Thrown Type_error s)
                  else if type identifier = ''Send'' then
                    Consume (call (on_message cb (seif_connection s) message) (enqueue Acknowledge_task s))
                  else if type identifier = ''Acknowledge'' then
                    (case pending_acks s of
                       [] \<Rightarrow> Returned (destroy cb (Some Unexpected_acknowledgement) None s)
                     | pending # rest \<Rightarrow> Consume (emit [Resolve pending] (s\<lparr>pending_acks := rest\<rparr>)))
                  else if type identifier = ''StatusSend'' then
                    Consume (call (on_message cb (seif_connection s) message) s)
                  else Returned (destroy cb (Some Unrecognized_message_type) None s)))"

lemma receive_Consume:
  "receive P cb s = Consume s' \<Longrightarrow> current_identifier s' = None \<and> session_key s' \<noteq> None"
  by (auto simp add: receive_def Let_def emit_def enqueue_def
      split: option.splits sum.splits if_splits js.splits json.splits list.splits prod.splits)

text \<open>The start of a record in \<open>consume\<close>: with no \<open>identifier_length\<close> yet (and two bytes
  in the buffer, which \<open>consume\<close> has checked), the length is read from the first two.\<close>

definition read_length :: "'x consumer \<Rightarrow> 'x consumer" where
  "read_length s =
     (if identifier_length s = None
      then (case take_bytes 2 s of
              (bytes, s) \<Rightarrow> s\<lparr>identifier_length := Some (getUint16 bytes)\<rparr>)
      else s)"

text \<open>\<open>consume()\<close>. It calls itself after the cleartext identifier of a Hello, after each
  cleartext blob, and through \<open>receive\<close> after a Send, an Acknowledge or a StatusSend.\<close>

function consume :: "platform \<Rightarrow> 'x callbacks \<Rightarrow> 'x consumer \<Rightarrow> 'x ending" where
  "consume P cb s =
     (if \<not> transport_connection s \<or> busy s then Returned s
      else
        (case current_identifier s of
           None \<Rightarrow>
             if identifier_length s = None \<and> length (buffer s) < 2 then Returned s
             else
               let s = read_length s
               in (case identifier_length s of
                     None \<Rightarrow> Returned s
                   | Some n \<Rightarrow>
                       if length (buffer s) < n then Returned s
                       else if session_key s = None \<and> handshake_key s = None then
                         (case take_bytes n s of
                            (bytes, s) \<Rightarrow>
                              (case decode_identifier P bytes of
                                 None \<Rightarrow> Returned (destroy cb (Some Syntax_error) None s)
                               | Some i \<Rightarrow> consume P cb (s\<lparr>current_identifier := Some i\<rparr>)))
                       else
                         (case take_bytes n (s\<lparr>busy := True\<rparr>) of
                            (bytes, s) \<Rightarrow> decrypt Decrypt_identifier bytes s))
         | Some identifier \<Rightarrow>
             if length (blob_buffers s) < length (blobs identifier) then
               let blob = blobs identifier ! length (blob_buffers s)
               in if session_key s = None \<and> handshake_key s = None then
                    if length (buffer s) < blob_length blob then Returned s
                    else
                      (case take_bytes (blob_length blob) s of
                         (bytes, s) \<Rightarrow> consume P cb (s\<lparr>blob_buffers := blob_buffers s @ [bytes]\<rparr>))
                  else
                    let ciphertext_length = blob_length blob + 16
                    in if length (buffer s) < ciphertext_length then Returned s
                       else
                         (case take_bytes ciphertext_length (s\<lparr>busy := True\<rparr>) of
                            (bytes, s) \<Rightarrow> decrypt Decrypt_blob bytes s)
             else
               (case receive P cb s of
                  Consume s \<Rightarrow> consume P cb s
                | Returned s \<Rightarrow> Returned s
                | Thrown e s \<Rightarrow> Thrown e s)))"
  by pat_completeness auto

definition phase :: "'x consumer \<Rightarrow> nat" where
  "phase s =
     (if current_identifier s \<noteq> None then 1
      else if session_key s = None \<and> handshake_key s = None then 2 else 0)"

definition remaining :: "'x consumer \<Rightarrow> nat" where
  "remaining s =
     (case current_identifier s of
        None \<Rightarrow> 0
      | Some i \<Rightarrow> length (blobs i) - length (blob_buffers s))"

termination consume
  apply (relation "inv_image (less_than <*lex*> less_than) (\<lambda>(P, cb, s). (phase s, remaining s))")
     apply (intro wf_inv_image wf_lex_prod wf_less_than)
    apply (auto simp add: phase_def take_bytes_def read_length_def split: if_splits)[1]
   apply (auto simp add: phase_def remaining_def take_bytes_def)[1]
  apply (frule receive_Consume)
  apply (auto simp add: phase_def)
  done

declare consume.simps [simp del]

text \<open>\<open>.catch(destroy)\<close> after a handler: an exception thrown in the handler is the reason
  of a \<open>destroy\<close> with no second argument.\<close>

definition caught :: "'x callbacks \<Rightarrow> 'x ending \<Rightarrow> 'x consumer" where
  "caught cb e =
     (case e of
        Returned s \<Rightarrow> s
      | Consume s \<Rightarrow> s
      | Thrown exception s \<Rightarrow> destroy cb (Some exception) None s)"

text \<open>The handlers that run when the operation in flight settles. A rejection goes to
  \<open>destroy\<close>. \<open>auth_hello\<close> rejects a version other than 0 by itself, and on success it has
  drawn one decryption IV (for \<open>helloData\<close>) and two encryption IVs (for the identifier and
  the one blob of the AuthHello record). An outcome of the wrong kind is not an outcome of
  the operation and changes nothing.\<close>

definition complete :: "platform \<Rightarrow> 'x callbacks \<Rightarrow> outcome \<Rightarrow> 'x consumer \<Rightarrow> 'x consumer" where
  "complete P cb outcome s =
     (case (in_flight s, outcome) of
        (Some (Decrypt_identifier c k v), Decrypted identifier_buffer) \<Rightarrow>
          (case decode_identifier P identifier_buffer of
             None \<Rightarrow> destroy cb (Some Syntax_error) None (s\<lparr>in_flight := None\<rparr>)
           | Some i \<Rightarrow>
               caught cb (consume P cb
                 (s\<lparr>in_flight := None, current_identifier := Some i, busy := False\<rparr>)))
      | (Some (Decrypt_blob c k v), Decrypted decrypted_buffer) \<Rightarrow>
          caught cb (consume P cb
            (s\<lparr>in_flight := None, blob_buffers := blob_buffers s @ [decrypted_buffer],
               busy := False\<rparr>))
      | (Some (Auth_hello message), Auth_hello_result auth_hello_record the_session_key
            hello_value initiator_public_key) \<Rightarrow>
          if get message ''version'' \<noteq> Json (JNumber 0) then s
          else
            let s = s\<lparr>in_flight := None,
                      ivs := \<lparr>next_encryption_iv = calls 2 (next_encryption_iv (ivs s)),
                              next_decryption_iv = calls 1 (next_decryption_iv (ivs s))\<rparr>\<rparr>
            in if \<not> transport_connection s then s
               else
                 let s = emit [Transport_send auth_hello_record] s;
                     s = s\<lparr>session_key := Some the_session_key\<rparr>;
                     s = s\<lparr>seif_connection := Some (connection_object s)\<rparr>;
                     s = call (on_open cb (connection_object s) (Some initiator_public_key)
                                 hello_value (get message ''connectionInfo'')) s
                 in s\<lparr>busy := False\<rparr>
      | (Some (Auth_hello message), Rejected e) \<Rightarrow>
          destroy cb
            (Some (if get message ''version'' \<noteq> Json (JNumber 0) then Unsupported_version else e))
            None (s\<lparr>in_flight := None\<rparr>)
      | (Some (Decrypt_session_key message), Imported_key the_session_key) \<Rightarrow>
          let s = s\<lparr>in_flight := None\<rparr>;
              s = s\<lparr>session_key := Some the_session_key\<rparr>;
              s = s\<lparr>seif_connection := Some (connection_object s)\<rparr>;
              s = call (on_open cb (connection_object s) None Undefined Undefined) s
          in s\<lparr>busy := False\<rparr>
      | (Some (Import_redirect_key message), Imported_key public_key) \<Rightarrow>
          (case on_redirect cb of
             None \<Rightarrow> destroy cb (Some Type_error) None (s\<lparr>in_flight := None\<rparr>)
           | Some f \<Rightarrow>
               (case f (seif_connection s) (get message ''address'') public_key
                       (get message ''permanent'') (get message ''redirectContext'')
                       (s\<lparr>in_flight := None\<rparr>) of
                  Thrown exception s \<Rightarrow> destroy cb (Some exception) None s
                | Returned s \<Rightarrow> s\<lparr>busy := False\<rparr>
                | Consume s \<Rightarrow> s\<lparr>busy := False\<rparr>))
      | (Some operation, Rejected e) \<Rightarrow> destroy cb (Some e) None (s\<lparr>in_flight := None\<rparr>)
      | _ \<Rightarrow> s)"

text \<open>The methods of the consumer object: \<open>consume(chunk)\<close>, whose exception, if any,
  goes to the transport that called it, and \<open>get_seif_connection()\<close>.\<close>

definition consume_chunk :: "platform \<Rightarrow> 'x callbacks \<Rightarrow> buffer \<Rightarrow> 'x consumer \<Rightarrow> 'x ending" where
  "consume_chunk P cb chunk s = consume P cb (s\<lparr>buffer := concat_buffers (buffer s) chunk\<rparr>)"

definition get_seif_connection :: "'x consumer \<Rightarrow> connection option" where
  "get_seif_connection s = seif_connection s"

lemma destroy_closed [simp]: "\<not> transport_connection s \<Longrightarrow> destroy cb reason situation_option s = s"
  by (simp add: destroy_def)

lemma transport_connection_destroy [simp]:
  "\<not> transport_connection (destroy cb reason situation_option s)"
  by (simp add: destroy_def Let_def)

lemma destroy_no_longer_required: "destroy cb reason (Some True) s = connection_close reason s"
  by (simp add: destroy_def connection_close_def Let_def)

lemma act_plain: "\<forall>r. e \<noteq> Connection_close r \<Longrightarrow> act e s = emit [e] s"
  by (cases e) (simp_all add: act_def)

lemma acts_plain:
  "\<forall>e\<in>set es. \<forall>r. e \<noteq> Connection_close r \<Longrightarrow> foldl (\<lambda>s e. act e s) s es = emit es s"
proof (induction es arbitrary: s)
  case Nil
  show ?case
    by (simp add: emit_def)
next
  case (Cons e es)
  then have "act e s = emit [e] s" and "foldl (\<lambda>s e. act e s) (emit [e] s) es = emit es (emit [e] s)"
    by (simp_all add: act_plain)
  then show ?case
    by (simp add: emit_def)
qed

text \<open>The three modes of \<open>destroy\<close> on a consumer whose transport connection is still there:
  every waiter in \<open>pending_acks\<close> is rejected, in order, with the reason; then the transport
  is closed unless the mode is \<open>false\<close>; then \<open>on_close\<close> is called with the connection and
  the reason if and only if the mode is \<open>undefined\<close>. When \<open>on_close\<close> does not call \<open>close\<close>,
  that is all. A call of \<open>destroy\<close> made after \<open>destroy\<close> has returned, with any arguments,
  changes nothing.\<close>

lemma destroy_modes:
  assumes "transport_connection s"
  shows "destroy cb reason (Some b) s
           = s\<lparr>transport_connection := False,
                trace := trace s
                  @ map (\<lambda>w. Reject w reason) (pending_acks s)
                  @ (if b then [Transport_close] else [])\<rparr>"
    and "destroy cb reason None s
           = (call (on_close cb (seif_connection s) reason)
                (s\<lparr>trace := trace s
                     @ map (\<lambda>w. Reject w reason) (pending_acks s) @ [Transport_close]\<rparr>))
              \<lparr>transport_connection := False\<rparr>"
    and "\<forall>e\<in>set (fst (on_close cb (seif_connection s) reason (world s))).
           \<forall>r. e \<noteq> Connection_close r
         \<Longrightarrow> destroy cb reason None s
           = s\<lparr>transport_connection := False,
                world := snd (on_close cb (seif_connection s) reason (world s)),
                trace := trace s
                  @ map (\<lambda>w. Reject w reason) (pending_acks s) @ [Transport_close]
                  @ fst (on_close cb (seif_connection s) reason (world s))\<rparr>"
    and "trace (destroy logging reason situation_option s)
           = trace s
             @ map (\<lambda>w. Reject w reason) (pending_acks s)
             @ (if situation_option = Some False then [] else [Transport_close])
             @ (if situation_option = None then [Called_on_close (seif_connection s) reason] else [])"
    and "destroy cb reason' situation_option' (destroy cb reason situation_option s)
           = destroy cb reason situation_option s"
proof -
  show "destroy cb reason (Some b) s
           = s\<lparr>transport_connection := False,
                trace := trace s
                  @ map (\<lambda>w. Reject w reason) (pending_acks s)
                  @ (if b then [Transport_close] else [])\<rparr>"
    using assms by (simp add: destroy_def Let_def emit_def)
  show "destroy cb reason None s
           = (call (on_close cb (seif_connection s) reason)
                (s\<lparr>trace := trace s
                     @ map (\<lambda>w. Reject w reason) (pending_acks s) @ [Transport_close]\<rparr>))
              \<lparr>transport_connection := False\<rparr>"
    using assms by (simp add: destroy_def Let_def emit_def)
  show "destroy cb reason None s
           = s\<lparr>transport_connection := False,
                world := snd (on_close cb (seif_connection s) reason (world s)),
                trace := trace s
                  @ map (\<lambda>w. Reject w reason) (pending_acks s) @ [Transport_close]
                  @ fst (on_close cb (seif_connection s) reason (world s))\<rparr>"
    if "\<forall>e\<in>set (fst (on_close cb (seif_connection s) reason (world s))).
           \<forall>r. e \<noteq> Connection_close r"
    using assms that
    by (simp add: destroy_def Let_def call_def acts_plain emit_def split: prod.splits)
  show "trace (destroy logging reason situation_option s)
           = trace s
             @ map (\<lambda>w. Reject w reason) (pending_acks s)
             @ (if situation_option = Some False then [] else [Transport_close])
             @ (if situation_option = None then [Called_on_close (seif_connection s) reason] else [])"
    using assms by (simp add: destroy_def Let_def call_def act_def emit_def logging_def)
  show "destroy cb reason' situation_option' (destroy cb reason situation_option s)
           = destroy cb reason situation_option s"
    by simp
qed



text \<open>The parse state as \<open>receive\<close> resets it before it looks at the message.\<close>

definition reset :: "'x consumer \<Rightarrow> 'x consumer" where
  "reset s = s\<lparr>current_identifier := None, identifier_length := None, blob_buffers := []\<rparr>"

lemma receive_handshake:
  assumes "current_identifier s = Some i"
    and "fill_message P (blobs i) (blob_buffers s) [] = Inr message"
    and "session_key s = None"
  shows "receive P cb s =
     (if handshake_key s = None then
        if get message ''version'' = Json (JNumber 0) \<and> \<not> has_slice (get message ''handshakeKey'')
        then Thrown Type_error ((reset s)\<lparr>busy := True\<rparr>)
        else Returned ((reset s)\<lparr>busy := True, in_flight := Some (Auth_hello message)\<rparr>)
      else
        if has_slice (get message ''sessionKey'')
        then Returned ((reset s)\<lparr>busy := True, in_flight := Some (Decrypt_session_key message)\<rparr>)
        else Thrown Type_error ((reset s)\<lparr>busy := True\<rparr>))"
  using assms by (simp add: receive_def reset_def Let_def)

lemma receive_open:
  assumes "current_identifier s = Some i"
    and "fill_message P (blobs i) (blob_buffers s) [] = Inr message"
    and "session_key s \<noteq> None"
  shows "receive P cb s =
     (if type i = ''Redirect'' then
        (case get message ''publicKey'' of
           Json (JString h) \<Rightarrow>
             Returned ((reset s)\<lparr>busy := True, in_flight := Some (Import_redirect_key message)\<rparr>)
         | _ \<Rightarrow> Thrown Type_error ((reset s)\<lparr>busy := True\<rparr>))
      else if type i = ''Send'' then
        Consume (call (on_message cb (seif_connection s) message) (enqueue Acknowledge_task (reset s)))
      else if type i = ''Acknowledge'' then
        (case pending_acks s of
           [] \<Rightarrow> Returned (destroy cb (Some Unexpected_acknowledgement) None (reset s))
         | w # rest \<Rightarrow> Consume (emit [Resolve w] ((reset s)\<lparr>pending_acks := rest\<rparr>)))
      else if type i = ''StatusSend'' then
        Consume (call (on_message cb (seif_connection s) message) (reset s))
      else Returned (destroy cb (Some Unrecognized_message_type) None (reset s)))"
proof -
  from assms(3) obtain k where "session_key s = Some k"
    by auto
  with assms(1,2) show ?thesis
    by (simp add: receive_def reset_def Let_def enqueue_def
        cong: js.case_cong json.case_cong list.case_cong)
qed

text \<open>
  Claim C10. While \<open>session_key\<close> is unset the consumer does not consult the identifier's
  type. \<open>receive\<close> gives the same result whatever the type string of the identifier is: a
  receiver (no handshake key) hands the message to \<open>auth_hello\<close>, that is, treats it as a
  Hello, and an initiator (handshake key set) decrypts its \<open>sessionKey\<close>, that is, treats it
  as an AuthHello. Once \<open>session_key\<close> is set, \<open>receive\<close> dispatches on the type: Redirect,
  Send, Acknowledge and StatusSend each have their branch, and any other type destroys the
  connection with "Unrecognized message type.".
\<close>

theorem handshake_ignores_type:
  assumes "current_identifier s = Some i"
    and "fill_message P (blobs i) (blob_buffers s) [] = Inr message"
  shows "(session_key s = None \<longrightarrow>
            receive P cb (s\<lparr>current_identifier := Some (i\<lparr>type := t\<rparr>)\<rparr>) = receive P cb s)
       \<and> (session_key s = None \<and> handshake_key s = None
            \<and> has_slice (get message ''handshakeKey'') \<longrightarrow>
            receive P cb s
              = Returned ((reset s)\<lparr>busy := True, in_flight := Some (Auth_hello message)\<rparr>))
       \<and> (session_key s = None \<and> handshake_key s \<noteq> None
            \<and> has_slice (get message ''sessionKey'') \<longrightarrow>
            receive P cb s
              = Returned ((reset s)\<lparr>busy := True, in_flight := Some (Decrypt_session_key message)\<rparr>))
       \<and> (session_key s \<noteq> None \<and> type i = ''Send'' \<longrightarrow>
            receive P cb s
              = Consume (call (on_message cb (seif_connection s) message)
                          (enqueue Acknowledge_task (reset s))))
       \<and> (session_key s \<noteq> None \<and> type i = ''StatusSend'' \<longrightarrow>
            receive P cb s = Consume (call (on_message cb (seif_connection s) message) (reset s)))
       \<and> (session_key s \<noteq> None \<and> type i = ''Acknowledge'' \<and> pending_acks s \<noteq> [] \<longrightarrow>
            receive P cb s
              = Consume (emit [Resolve (hd (pending_acks s))]
                          ((reset s)\<lparr>pending_acks := tl (pending_acks s)\<rparr>)))
       \<and> (session_key s \<noteq> None \<and> type i = ''Redirect''
            \<and> (\<exists>h. get message ''publicKey'' = Json (JString h)) \<longrightarrow>
            receive P cb s
              = Returned ((reset s)\<lparr>busy := True, in_flight := Some (Import_redirect_key message)\<rparr>))
       \<and> (session_key s \<noteq> None
            \<and> type i \<notin> {''Redirect'', ''Send'', ''Acknowledge'', ''StatusSend''} \<longrightarrow>
            receive P cb s = Returned (destroy cb (Some Unrecognized_message_type) None (reset s)))"
proof -
  have same: "receive P cb (s\<lparr>current_identifier := Some (i\<lparr>type := t\<rparr>)\<rparr>) = receive P cb s"
    if "session_key s = None"
  proof -
    have "receive P cb (s\<lparr>current_identifier := Some (i\<lparr>type := t\<rparr>)\<rparr>)
          = (if handshake_key s = None then
               if get message ''version'' = Json (JNumber 0) \<and> \<not> has_slice (get message ''handshakeKey'')
               then Thrown Type_error ((reset s)\<lparr>busy := True\<rparr>)
               else Returned ((reset s)\<lparr>busy := True, in_flight := Some (Auth_hello message)\<rparr>)
             else
               if has_slice (get message ''sessionKey'')
               then Returned ((reset s)\<lparr>busy := True, in_flight := Some (Decrypt_session_key message)\<rparr>)
               else Thrown Type_error ((reset s)\<lparr>busy := True\<rparr>))"
      using receive_handshake[of "s\<lparr>current_identifier := Some (i\<lparr>type := t\<rparr>)\<rparr>" "i\<lparr>type := t\<rparr>" P message cb]
        assms that
      by (simp add: reset_def)
    then show ?thesis
      using receive_handshake[OF assms that, of cb] by simp
  qed
  show ?thesis
    using same receive_handshake[OF assms, of cb] receive_open[OF assms, of cb]
    by (auto split: list.splits)
qed

text \<open>A platform for the witnesses: the ASCII \<open>JSON.stringify\<close> above, a parser that knows
  no text, and the AES-GCM stand-in that appends a tag of 16 zero bytes.\<close>

definition toy_platform :: platform where
  "toy_platform =
     \<lparr>encode = ascii_encode_json,
      decode = (\<lambda>b. None),
      decode_identifier = (\<lambda>b. None),
      aes_encrypt = tagged,
      hex_decode = (\<lambda>h. [])\<rparr>"

theorem handshake_ignores_type_witness:
  "receive toy_platform logging
     ((make_consumer (iv 1) (iv 0) None 1 () [])
        \<lparr>current_identifier := Some \<lparr>type = ''Acknowledge'', blobs = []\<rparr>\<rparr>)
   = receive toy_platform logging
     ((make_consumer (iv 1) (iv 0) None 1 () [])
        \<lparr>current_identifier := Some \<lparr>type = ''Hello'', blobs = []\<rparr>\<rparr>)"
proof -
  let ?s = "(make_consumer (iv 1) (iv 0) None 1 () [])
        \<lparr>current_identifier := Some \<lparr>type = ''Hello'', blobs = []\<rparr>\<rparr>"
  have a: "current_identifier ?s = Some \<lparr>type = ''Hello'', blobs = []\<rparr>"
    by simp
  have b: "fill_message toy_platform (blobs \<lparr>type = ''Hello'', blobs = []\<rparr>) (blob_buffers ?s) [] = Inr []"
    by simp
  have c: "session_key ?s = None"
    by (simp add: make_consumer_def)
  show ?thesis
    using handshake_ignores_type[OF a b, of logging "''Acknowledge''"] c
    by simp
qed

subsection \<open>Runs of a consumer\<close>

text \<open>What can happen to a consumer: the transport delivers a chunk or reports that it
  has closed, the operation in flight settles, the queue comes to its next task, or the
  caller uses the connection object.\<close>

datatype input =
    Receive_chunk buffer              \<comment> \<open>\<open>consumer.consume(chunk)\<close>\<close>
  | Settle outcome
  | Run_task
  | Call_send waiter message          \<comment> \<open>\<open>connection.send(message)\<close>, returning the Promise of the waiter\<close>
  | Call_status_send message
  | Call_redirect js "error + string" js js
  | Call_close reason
  | Call_transport_closed reason      \<comment> \<open>\<open>consumer.transport_closed(reason)\<close>\<close>

definition state_of :: "'x ending \<Rightarrow> 'x consumer" where
  "state_of e = (case e of Returned s \<Rightarrow> s | Consume s \<Rightarrow> s | Thrown exception s \<Rightarrow> s)"

definition step :: "platform \<Rightarrow> 'x callbacks \<Rightarrow> input \<Rightarrow> 'x consumer \<Rightarrow> 'x consumer" where
  "step P cb i s =
     (case i of
        Receive_chunk chunk \<Rightarrow> state_of (consume_chunk P cb chunk s)
      | Settle outcome \<Rightarrow> complete P cb outcome s
      | Run_task \<Rightarrow> run_task P cb s
      | Call_send w message \<Rightarrow> send w message s
      | Call_status_send message \<Rightarrow> status_send message s
      | Call_redirect address exported permanent redirect_context \<Rightarrow>
          redirect address exported permanent redirect_context s
      | Call_close reason \<Rightarrow> close cb reason s
      | Call_transport_closed reason \<Rightarrow> transport_closed cb reason s)"

definition run :: "platform \<Rightarrow> 'x callbacks \<Rightarrow> input list \<Rightarrow> 'x consumer \<Rightarrow> 'x consumer" where
  "run P cb inputs s = foldl (\<lambda>s i. step P cb i s) s inputs"

text \<open>The waiters of the calls of \<open>send\<close> in a run, of the Send tasks on a queue, and of the
  resolutions among some events, each in order.\<close>

fun sent :: "input list \<Rightarrow> waiter list" where
  "sent [] = []"
| "sent (Call_send w message # inputs) = w # sent inputs"
| "sent (i # inputs) = sent inputs"

fun waiters_of :: "task list \<Rightarrow> waiter list" where
  "waiters_of [] = []"
| "waiters_of (Send_task w message # ts) = w # waiters_of ts"
| "waiters_of (t # ts) = waiters_of ts"

fun resolved :: "event list \<Rightarrow> waiter list" where
  "resolved [] = []"
| "resolved (Resolve w # es) = w # resolved es"
| "resolved (e # es) = resolved es"

text \<open>The waiters that have been resolved or are waiting for their acknowledgement.\<close>

definition acked :: "'x consumer \<Rightarrow> waiter list" where
  "acked s = resolved (trace s) @ pending_acks s"

text \<open>Between two states of a consumer with a caller that only logs: the same waiters
  resolved or waiting, the same Send tasks on the queue, and no transport connection that
  was not there before.\<close>

definition same_waiters :: "'x consumer \<Rightarrow> 'x consumer \<Rightarrow> bool" where
  "same_waiters s s' =
     (acked s' = acked s \<and> waiters_of (queue s') = waiters_of (queue s)
      \<and> (transport_connection s \<or> \<not> transport_connection s'))"

lemma resolved_append [simp]: "resolved (es @ fs) = resolved es @ resolved fs"
  by (induction es rule: resolved.induct) simp_all

lemma waiters_of_append [simp]: "waiters_of (ts @ us) = waiters_of ts @ waiters_of us"
  by (induction ts rule: waiters_of.induct) simp_all

lemma sent_append [simp]: "sent (is @ js) = sent is @ sent js"
  by (induction "is" rule: sent.induct) simp_all

lemma resolved_rejects [simp]: "resolved (map (\<lambda>w. Reject w reason) ws) = []"
  by (induction ws) simp_all

lemma same_waiters_refl [simp]: "same_waiters s s"
  by (simp add: same_waiters_def)

lemma same_waiters_trans: "same_waiters s s' \<Longrightarrow> same_waiters s' s'' \<Longrightarrow> same_waiters s s''"
  by (auto simp add: same_waiters_def)

lemma same_waiters_destroy: "same_waiters s (destroy logging reason situation_option s)"
  by (simp add: same_waiters_def acked_def destroy_def Let_def call_def act_def emit_def logging_def)

lemma same_waiters_receive: "same_waiters s (state_of (receive P logging s))"
proof (cases "current_identifier s")
  case None
  then show ?thesis by (simp add: receive_def state_of_def)
next
  case (Some i)
  show ?thesis
  proof (cases "fill_message P (blobs i) (blob_buffers s) []")
    case (Inl e)
    with Some show ?thesis
      by (simp add: receive_def state_of_def same_waiters_destroy)
  next
    case (Inr message)
    show ?thesis
    proof (cases "session_key s")
      case None
      with Some Inr show ?thesis
        by (simp add: receive_handshake reset_def state_of_def same_waiters_def acked_def)
    next
      case (Some k)
      have d: "same_waiters s (destroy logging r None (reset s))" for r
      proof -
        have "same_waiters s (reset s)"
          by (simp add: same_waiters_def acked_def reset_def)
        then show ?thesis
          using same_waiters_destroy same_waiters_trans by blast
      qed
      from Some \<open>current_identifier s = Some i\<close> Inr show ?thesis
        using d
        by (auto simp add: receive_open state_of_def reset_def same_waiters_def acked_def
            call_def act_def emit_def enqueue_def logging_def
            split: js.splits json.splits list.splits)
    qed
  qed
qed

text \<open>A relation between states that is reflexive and transitive and holds across each
  assignment of the parse state, each start of a decryption, each \<open>destroy\<close> and each
  \<open>receive\<close>, holds across \<open>consume\<close>.\<close>

lemma consume_relates:
  "(\<And>s. R s s) \<Longrightarrow> (\<And>s s' s''. R s s' \<Longrightarrow> R s' s'' \<Longrightarrow> R s s'')
   \<Longrightarrow> (\<And>s b. R s (s\<lparr>buffer := b\<rparr>))
   \<Longrightarrow> (\<And>s n. R s (s\<lparr>identifier_length := n\<rparr>))
   \<Longrightarrow> (\<And>s i. R s (s\<lparr>current_identifier := i\<rparr>))
   \<Longrightarrow> (\<And>s bs. R s (s\<lparr>blob_buffers := bs\<rparr>))
   \<Longrightarrow> (\<And>s kind cipher b. R s (state_of (decrypt kind cipher (s\<lparr>busy := True, buffer := b\<rparr>))))
   \<Longrightarrow> (\<And>s r. R s (destroy cb r None s))
   \<Longrightarrow> (\<And>s. R s (state_of (receive P cb s)))
   \<Longrightarrow> R s (state_of (consume P cb s))"
proof (induction P cb s rule: consume.induct)
  case (1 P cb s)
  note prems = "1.prems"
  note rfl = prems(1)
  note tr = prems(2)
  have step:
    "\<And>a s' b. R a s' \<Longrightarrow> R a (s'\<lparr>buffer := b\<rparr>)"
    "\<And>a s' n. R a s' \<Longrightarrow> R a (s'\<lparr>identifier_length := n\<rparr>)"
    "\<And>a s' i. R a s' \<Longrightarrow> R a (s'\<lparr>current_identifier := i\<rparr>)"
    "\<And>a s' bs. R a s' \<Longrightarrow> R a (s'\<lparr>blob_buffers := bs\<rparr>)"
    "\<And>a s' kind cipher b. R a s'
       \<Longrightarrow> R a (state_of (decrypt kind cipher (s'\<lparr>busy := True, buffer := b\<rparr>)))"
    "\<And>a s' r. R a s' \<Longrightarrow> R a (destroy cb r None s')"
    "\<And>a s'. R a s' \<Longrightarrow> R a (state_of (receive P cb s'))"
    by (erule tr, rule prems)+
  show ?case
  proof (cases "\<not> transport_connection s \<or> busy s")
    case True
    have "consume P cb s = Returned s"
      by (subst consume.simps) (simp only: True if_True)
    then show ?thesis
      by (simp add: state_of_def rfl)
  next
    case alive': False
    then have alive: "transport_connection s" "\<not> busy s"
      by simp_all
    show ?thesis
    proof (cases "current_identifier s")
      case None
      show ?thesis
      proof (cases "identifier_length s = None \<and> length (buffer s) < 2")
        case True
        have "consume P cb s = Returned s"
          by (subst consume.simps) (simp add: alive None True)
        then show ?thesis
          by (simp add: state_of_def rfl)
      next
        case False
        then have enough: "(identifier_length s = None \<and> length (buffer s) < 2) = False"
          by simp
        have enough': "\<not> (identifier_length s = None \<and> length (buffer s) < 2)"
          using False .
        let ?s1 = "read_length s"
        have s1: "R s ?s1"
          by (simp add: read_length_def take_bytes_def rfl step)
        show ?thesis
        proof (cases "identifier_length ?s1")
          case n: None
          have "consume P cb s = Returned ?s1"
            by (subst consume.simps) (simp add: alive None enough n Let_def)
          then show ?thesis
            by (simp add: state_of_def s1)
        next
          case n: (Some n)
          show ?thesis
          proof (cases "length (buffer ?s1) < n")
            case True
            have "consume P cb s = Returned ?s1"
              by (subst consume.simps) (simp add: alive None enough n True Let_def)
            then show ?thesis
              by (simp add: state_of_def s1)
          next
            case False
            then have arrived: "(length (buffer ?s1) < n) = False"
              by simp
            have arrived': "\<not> length (buffer ?s1) < n"
              using False .
            show ?thesis
            proof (cases "session_key ?s1 = None \<and> handshake_key ?s1 = None")
              case clear: True
              let ?s2 = "?s1\<lparr>buffer := drop n (buffer ?s1)\<rparr>"
              show ?thesis
              proof (cases "decode_identifier P (take n (buffer ?s1))")
                case d: None
                have "consume P cb s = Returned (destroy cb (Some Syntax_error) None ?s2)"
                  by (subst consume.simps) (simp add: alive None enough n arrived clear d Let_def take_bytes_def)
                then show ?thesis
                  by (simp add: state_of_def step s1)
              next
                case d: (Some i)
                have c: "consume P cb s = consume P cb (?s2\<lparr>current_identifier := Some i\<rparr>)"
                  by (subst consume.simps) (simp add: alive None enough n arrived clear d Let_def take_bytes_def)
                have b: "R (?s2\<lparr>current_identifier := Some i\<rparr>)
                        (state_of (consume P cb (?s2\<lparr>current_identifier := Some i\<rparr>)))"
                proof -
                  have tb: "(take n (buffer ?s1), ?s2) = take_bytes n ?s1"
                    by (simp add: take_bytes_def)
                  show ?thesis
                    by (rule "1.IH"(1)[OF alive' None enough' refl n arrived' clear tb d prems])
                qed
                have a: "R s (?s2\<lparr>current_identifier := Some i\<rparr>)"
                  by (simp add: step s1)
                show ?thesis
                  unfolding c using tr[OF a b] .
              qed
            next
              case False
              have c: "consume P cb s
                    = decrypt Decrypt_identifier (take n (buffer ?s1))
                        (?s1\<lparr>busy := True, buffer := drop n (buffer ?s1)\<rparr>)"
                by (subst consume.simps) (simp add: alive None enough n arrived False Let_def take_bytes_def)
              show ?thesis
                unfolding c by (rule step(5)) (rule s1)
            qed
          qed
        qed
      qed
    next
      case (Some i)
      show ?thesis
      proof (cases "length (blob_buffers s) < length (blobs i)")
        case more: True
        let ?blob = "blobs i ! length (blob_buffers s)"
        show ?thesis
        proof (cases "session_key s = None \<and> handshake_key s = None")
          case clear: True
          show ?thesis
          proof (cases "length (buffer s) < blob_length ?blob")
            case True
            have "consume P cb s = Returned s"
              by (subst consume.simps) (simp add: alive Some more clear True Let_def)
            then show ?thesis
              by (simp add: state_of_def rfl)
          next
            case arrived: False
            let ?s2 = "s\<lparr>buffer := drop (blob_length ?blob) (buffer s)\<rparr>"
            let ?s3 = "?s2\<lparr>blob_buffers := blob_buffers ?s2 @ [take (blob_length ?blob) (buffer s)]\<rparr>"
            have c: "consume P cb s = consume P cb ?s3"
              by (subst consume.simps) (simp add: alive Some more clear arrived Let_def take_bytes_def)
            have b: "R ?s3 (state_of (consume P cb ?s3))"
            proof -
              have tb: "(take (blob_length ?blob) (buffer s), ?s2) = take_bytes (blob_length ?blob) s"
                by (simp add: take_bytes_def)
              show ?thesis
                by (rule "1.IH"(2)[OF alive' Some more refl clear arrived tb prems])
            qed
            have a: "R s ?s3"
              by (simp add: step rfl)
            show ?thesis
              unfolding c using tr[OF a b] .
          qed
        next
          case notclear: False
          show ?thesis
          proof (cases "length (buffer s) < blob_length ?blob + 16")
            case True
            have "consume P cb s = Returned s"
              by (subst consume.simps) (simp add: alive Some more notclear True Let_def)
            then show ?thesis
              by (simp add: state_of_def rfl)
          next
            case arrived: False
            have c: "consume P cb s
                  = decrypt Decrypt_blob (take (blob_length ?blob + 16) (buffer s))
                      (s\<lparr>busy := True, buffer := drop (blob_length ?blob + 16) (buffer s)\<rparr>)"
              by (subst consume.simps) (simp add: alive Some more notclear arrived Let_def take_bytes_def)
            show ?thesis
              unfolding c by (rule step(5)) (rule rfl)
          qed
        qed
      next
        case complete: False
        show ?thesis
        proof (cases "receive P cb s")
          case (Returned s')
          have "consume P cb s = Returned s'"
            by (subst consume.simps) (simp add: alive Some complete Returned)
          moreover have "R s (state_of (receive P cb s))"
            by (simp add: step rfl)
          ultimately show ?thesis
            using Returned by simp
        next
          case (Consume s')
          have c: "consume P cb s = consume P cb s'"
            by (subst consume.simps) (simp add: alive Some complete Consume)
          have b: "R s' (state_of (consume P cb s'))"
            by (rule "1.IH"(3)[OF alive' Some complete Consume prems])
          have "R s (state_of (receive P cb s))"
            by (simp add: step rfl)
          then have a: "R s s'"
            by (simp add: Consume state_of_def)
          show ?thesis
            unfolding c using tr[OF a b] .
        next
          case (Thrown e s')
          have "consume P cb s = Thrown e s'"
            by (subst consume.simps) (simp add: alive Some complete Thrown)
          moreover have "R s (state_of (receive P cb s))"
            by (simp add: step rfl)
          ultimately show ?thesis
            using Thrown by simp
        qed
      qed
    qed
  qed
qed

lemma same_waiters_consume: "same_waiters s (state_of (consume P logging s))"
proof (rule consume_relates)
  show "same_waiters a b \<Longrightarrow> same_waiters b c \<Longrightarrow> same_waiters a c" for a b c :: "'a consumer"
    by (rule same_waiters_trans)
  show "same_waiters a (state_of (decrypt kind cipher (a\<lparr>busy := True, buffer := b\<rparr>)))"
    for a :: "'a consumer" and kind cipher b
    by (simp add: same_waiters_def acked_def decrypt_def state_of_def split: sum.splits prod.splits)
qed (simp_all add: same_waiters_def acked_def same_waiters_destroy[unfolded same_waiters_def acked_def]
      same_waiters_receive[unfolded same_waiters_def acked_def])

lemma same_waiters_caught: "same_waiters s (caught logging (consume P logging s))"
proof (cases "consume P logging s")
  case (Thrown e s')
  have "same_waiters s s'"
    using same_waiters_consume[of s P] Thrown by (simp add: state_of_def)
  then have "same_waiters s (destroy logging (Some e) None s')"
    by (rule same_waiters_trans) (rule same_waiters_destroy)
  then show ?thesis
    by (simp add: caught_def Thrown)
qed (use same_waiters_consume[of s P] in \<open>simp_all add: caught_def state_of_def\<close>)

lemma same_waiters_complete: "same_waiters s (complete P logging outcome s)"
proof -
  have d: "same_waiters s (destroy logging r None (s\<lparr>in_flight := None\<rparr>))" for r
  proof -
    have "same_waiters s (s\<lparr>in_flight := None\<rparr>)"
      by (simp add: same_waiters_def acked_def)
    then show ?thesis
      by (rule same_waiters_trans) (rule same_waiters_destroy)
  qed
  have c: "same_waiters s (caught logging (consume P logging s'))" if "same_waiters s s'" for s'
    using that by (rule same_waiters_trans) (rule same_waiters_caught)
  have c1: "same_waiters s (caught logging (consume P logging
               (s\<lparr>in_flight := None, current_identifier := i, busy := False\<rparr>)))" for i
    by (rule c) (simp add: same_waiters_def acked_def)
  have c2: "same_waiters s (caught logging (consume P logging
               (s\<lparr>in_flight := None, blob_buffers := b, busy := False\<rparr>)))" for b
    by (rule c) (simp add: same_waiters_def acked_def)
  have l: "on_redirect (logging :: 'a callbacks) = None"
    by (simp add: logging_def)
  show ?thesis
  proof (cases "in_flight s")
    case None
    then show ?thesis
      by (simp add: complete_def)
  next
    case (Some operation)
    show ?thesis
    proof (cases operation)
      case (Decrypt_identifier x1 x2 x3)
      with Some show ?thesis
        by (cases outcome) (simp_all add: complete_def d c1 split: option.splits)
    next
      case (Decrypt_blob x1 x2 x3)
      with Some show ?thesis
        by (cases outcome) (simp_all add: complete_def d c2)
    next
      case (Auth_hello message)
      with Some show ?thesis
        by (cases outcome)
          (simp_all add: complete_def d Let_def,
            simp_all add: same_waiters_def acked_def call_def act_def emit_def logging_def)
    next
      case (Decrypt_session_key message)
      with Some show ?thesis
        by (cases outcome)
          (simp_all add: complete_def d Let_def,
            simp_all add: same_waiters_def acked_def call_def act_def emit_def logging_def)
    next
      case (Import_redirect_key message)
      with Some show ?thesis
        by (cases outcome) (simp_all add: complete_def d l)
    qed
  qed
qed

text \<open>The invariant of a run: the waiters resolved or waiting are the first \<open>j\<close> of the
  calls of \<open>send\<close>, and while the transport connection is there the Send tasks on the queue
  are the others.\<close>

definition in_order :: "waiter list \<Rightarrow> 'x consumer \<Rightarrow> bool" where
  "in_order ws s =
     (\<exists>j\<le>length ws. acked s = take j ws
        \<and> (transport_connection s \<longrightarrow> waiters_of (queue s) = drop j ws))"

lemma in_order_same: "in_order ws s \<Longrightarrow> same_waiters s s' \<Longrightarrow> in_order ws s'"
  by (auto simp add: in_order_def same_waiters_def)

lemma in_order_make_consumer: "in_order [] (make_consumer enc dec hk c w [])"
  by (simp add: in_order_def acked_def make_consumer_def)

lemma in_order_snoc:
  assumes "in_order ws s"
  shows "in_order (ws @ [w]) (send w message s)"
proof -
  from assms obtain j where j: "j \<le> length ws" "acked s = take j ws"
    "transport_connection s \<longrightarrow> waiters_of (queue s) = drop j ws"
    by (auto simp add: in_order_def)
  then show ?thesis
    unfolding in_order_def
    by (intro exI[of _ j]) (simp add: send_def enqueue_def acked_def)
qed

lemma in_order_more: "in_order ws s \<Longrightarrow> queue s' = queue s \<Longrightarrow> acked s' = acked s
    \<Longrightarrow> transport_connection s' = transport_connection s \<Longrightarrow> in_order ws s'"
  by (simp add: in_order_def)

lemma consumer_make_record_same:
  "consumer_make_record P t message s = (r, s')
   \<Longrightarrow> queue s' = queue s \<and> pending_acks s' = pending_acks s \<and> trace s' = trace s
       \<and> transport_connection s' = transport_connection s"
  by (auto simp add: consumer_make_record_def split: prod.splits)

lemma callback_same:
  assumes "callback P t s = (r, s')"
  shows "queue s' = queue s \<and> trace s' = trace s
       \<and> transport_connection s' = transport_connection s
       \<and> busy s' = busy s \<and> in_flight s' = in_flight s
       \<and> pending_acks s' = (case t of Send_task w message \<Rightarrow> pending_acks s @ [w] | _ \<Rightarrow> pending_acks s)"
proof (cases t)
  case (Redirect_task address exported permanent redirect_context)
  show ?thesis
  proof (cases exported)
    case (Inl e)
    with assms Redirect_task show ?thesis
      by simp
  next
    case (Inr h)
    with assms Redirect_task show ?thesis
      by (auto simp add: consumer_make_record_def split: prod.splits promised.splits)
  qed
qed (use assms in \<open>auto simp add: consumer_make_record_def split: prod.splits\<close>)

lemma in_order_run_task: "in_order ws s \<Longrightarrow> in_order ws (run_task P logging s)"
proof (cases "queue s")
  case Nil
  assume "in_order ws s"
  with Nil show ?thesis
    by (simp add: run_task_def)
next
  case (Cons t ts)
  assume i: "in_order ws s"
  show ?thesis
  proof (cases "transport_connection s")
    case False
    with i Cons show ?thesis
      by (simp add: run_task_def in_order_def acked_def)
  next
    case True
    obtain r s' where c: "callback P t (s\<lparr>queue := ts\<rparr>) = (r, s')"
      by (cases "callback P t (s\<lparr>queue := ts\<rparr>)")
    note same = callback_same[OF c]
    have s': "in_order ws s' \<and> transport_connection s'"
    proof (cases t)
      case (Send_task w message)
      from i obtain j where j: "j \<le> length ws" "acked s = take j ws" "w # waiters_of ts = drop j ws"
        using True Cons Send_task by (auto simp add: in_order_def)
      from j(3) have less: "j < length ws"
        by (cases "j < length ws") simp_all
      from j(3) have nth: "ws ! j = w" and rest: "waiters_of ts = drop (Suc j) ws"
        using less by (simp_all add: Cons_nth_drop_Suc[symmetric])
      from same Send_task
      have "queue s' = ts \<and> pending_acks s' = pending_acks s @ [w] \<and> trace s' = trace s
            \<and> transport_connection s' = transport_connection s"
        by simp
      then have "acked s' = take (Suc j) ws" "waiters_of (queue s') = drop (Suc j) ws" "transport_connection s'"
        using j(2) nth rest less True by (simp_all add: acked_def take_Suc_conv_app_nth)
      with less show ?thesis
        unfolding in_order_def by (intro conjI exI[of _ "Suc j"]) simp_all
    next
      case (Status_send_task message)
      with same have "queue s' = ts \<and> pending_acks s' = pending_acks s \<and> trace s' = trace s
            \<and> transport_connection s' = transport_connection s"
        by simp
      with i Cons True Status_send_task show ?thesis
        by (simp add: in_order_def acked_def)
    next
      case (Redirect_task address exported permanent redirect_context)
      with same have "queue s' = ts \<and> pending_acks s' = pending_acks s \<and> trace s' = trace s
            \<and> transport_connection s' = transport_connection s"
        by simp
      with i Cons True Redirect_task show ?thesis
        by (simp add: in_order_def acked_def)
    next
      case Acknowledge_task
      with same have "queue s' = ts \<and> pending_acks s' = pending_acks s \<and> trace s' = trace s
            \<and> transport_connection s' = transport_connection s"
        by simp
      with i Cons True Acknowledge_task show ?thesis
        by (simp add: in_order_def acked_def)
    qed
    have rt: "run_task P logging s =
        (case callback P t (s\<lparr>queue := ts\<rparr>) of
           (Throws e, s) \<Rightarrow> destroy logging (Some e) None s
         | (Rejects e, s) \<Rightarrow> destroy logging (Some e) None s
         | (Resolves rb, s) \<Rightarrow> if transport_connection s then emit [Transport_send rb] s else s)"
      by (simp add: run_task_def Cons True)
    have d: "in_order ws (destroy logging (Some e) None s')" for e
      by (rule in_order_same[OF conjunct1[OF s'] same_waiters_destroy])
    show ?thesis
    proof (cases r)
      case (Throws e)
      have "run_task P logging s = destroy logging (Some e) None s'"
        unfolding rt c Throws by simp
      with d show ?thesis
        by simp
    next
      case (Rejects e)
      have "run_task P logging s = destroy logging (Some e) None s'"
        unfolding rt c Rejects by simp
      with d show ?thesis
        by simp
    next
      case (Resolves rb)
      have "run_task P logging s = emit [Transport_send rb] s'"
        unfolding rt c Resolves by (simp add: s')
      moreover have "in_order ws (emit [Transport_send rb] s')"
        by (rule in_order_more[OF conjunct1[OF s']]) (simp_all add: acked_def emit_def)
      ultimately show ?thesis
        by simp
    qed
  qed
qed

lemma in_order_step: "in_order (sent inputs) s \<Longrightarrow> in_order (sent (inputs @ [i])) (step P logging i s)"
proof (cases i)
  case (Receive_chunk chunk)
  assume a: "in_order (sent inputs) s"
  have "same_waiters s (s\<lparr>buffer := concat_buffers (buffer s) chunk\<rparr>)"
    by (simp add: same_waiters_def acked_def)
  then have "same_waiters s (state_of (consume_chunk P logging chunk s))"
    unfolding consume_chunk_def by (rule same_waiters_trans) (rule same_waiters_consume)
  with a have "in_order (sent inputs) (state_of (consume_chunk P logging chunk s))"
    by (rule in_order_same)
  with Receive_chunk show ?thesis
    by (simp add: step_def)
next
  case (Settle outcome)
  assume "in_order (sent inputs) s"
  with Settle show ?thesis
    by (simp add: step_def in_order_same[OF _ same_waiters_complete])
next
  case Run_task
  assume "in_order (sent inputs) s"
  with Run_task show ?thesis
    by (simp add: step_def in_order_run_task)
next
  case (Call_send w message)
  assume "in_order (sent inputs) s"
  with Call_send show ?thesis
    by (simp add: step_def in_order_snoc)
next
  case (Call_status_send message)
  assume "in_order (sent inputs) s"
  with Call_status_send show ?thesis
    by (simp add: step_def status_send_def enqueue_def in_order_def acked_def)
next
  case (Call_redirect address exported permanent redirect_context)
  assume "in_order (sent inputs) s"
  with Call_redirect show ?thesis
    by (simp add: step_def redirect_def enqueue_def in_order_def acked_def)
next
  case (Call_close reason)
  assume "in_order (sent inputs) s"
  with Call_close show ?thesis
    by (simp add: step_def close_def in_order_same[OF _ same_waiters_destroy])
next
  case (Call_transport_closed reason)
  assume "in_order (sent inputs) s"
  with Call_transport_closed show ?thesis
    by (simp add: step_def transport_closed_def in_order_same[OF _ same_waiters_destroy])
qed

lemma in_order_run:
  "in_order (sent inputs) (run P logging inputs (make_consumer enc dec hk c w []))"
proof (induction inputs rule: rev_induct)
  case Nil
  show ?case
    by (simp add: run_def in_order_make_consumer)
next
  case (snoc i inputs)
  then show ?case
    using in_order_step[of inputs _ i P] by (simp add: run_def)
qed

text \<open>
  Claim C5. When \<open>receive\<close> handles an Acknowledge record in the open phase (the session
  key is set) and \<open>pending_acks\<close> is not empty, it takes the oldest waiter off
  \<open>pending_acks\<close>, resolves that waiter and no other, does nothing else, and goes on to
  \<open>consume\<close>. When \<open>pending_acks\<close> is empty it destroys the connection with the reason
  "Unexpected acknowledgement." and no second argument, so that on a live transport the
  transport is closed and \<open>on_close\<close> is called with that reason. And in every run of a
  consumer whose caller only logs, whatever the chunks received, the outcomes of the
  operations, the tasks run and the calls of \<open>send\<close>, \<open>status_send\<close>, \<open>redirect\<close> and \<open>close\<close>
  are, the waiters resolved so far followed by the waiters in \<open>pending_acks\<close> are the first
  \<open>j\<close> calls of \<open>send\<close> in the order of the calls: waiters are resolved first in, first out.
\<close>

theorem acknowledge_resolves_oldest:
  "(current_identifier s = Some i \<and> type i = ''Acknowledge''
      \<and> fill_message P (blobs i) (blob_buffers s) [] = Inr message \<and> session_key s \<noteq> None
    \<longrightarrow> (\<forall>w rest. pending_acks s = w # rest
           \<longrightarrow> receive P cb s = Consume (emit [Resolve w] ((reset s)\<lparr>pending_acks := rest\<rparr>)))
      \<and> (pending_acks s = []
           \<longrightarrow> receive P cb s
               = Returned (destroy cb (Some Unexpected_acknowledgement) None (reset s)))
      \<and> (pending_acks s = [] \<and> transport_connection s
           \<longrightarrow> trace (state_of (receive P logging s))
               = trace s @ [Transport_close,
                            Called_on_close (seif_connection s) (Some Unexpected_acknowledgement)]))
   \<and> (\<exists>j. resolved (trace (run P logging inputs (make_consumer enc dec hk c x [])))
             @ pending_acks (run P logging inputs (make_consumer enc dec hk c x []))
           = take j (sent inputs))"
proof (intro conjI impI)
  assume a: "current_identifier s = Some i \<and> type i = ''Acknowledge''
      \<and> fill_message P (blobs i) (blob_buffers s) [] = Inr message \<and> session_key s \<noteq> None"
  then have r: "receive P cb s =
       (case pending_acks s of
          [] \<Rightarrow> Returned (destroy cb (Some Unexpected_acknowledgement) None (reset s))
        | w # rest \<Rightarrow> Consume (emit [Resolve w] ((reset s)\<lparr>pending_acks := rest\<rparr>)))" for cb
    using receive_open[of s i P message cb] by simp
  show "\<forall>w rest. pending_acks s = w # rest
           \<longrightarrow> receive P cb s = Consume (emit [Resolve w] ((reset s)\<lparr>pending_acks := rest\<rparr>))"
    by (simp add: r)
  show "receive P cb s = Returned (destroy cb (Some Unexpected_acknowledgement) None (reset s))"
    if "pending_acks s = []"
    using that by (simp add: r)
  show "trace (state_of (receive P logging s))
               = trace s @ [Transport_close,
                            Called_on_close (seif_connection s) (Some Unexpected_acknowledgement)]"
    if "pending_acks s = [] \<and> transport_connection s"
    using that
    by (simp add: r state_of_def destroy_def reset_def Let_def call_def act_def emit_def logging_def)
next
  from in_order_run[of inputs P enc dec hk c x]
  show "\<exists>j. resolved (trace (run P logging inputs (make_consumer enc dec hk c x [])))
             @ pending_acks (run P logging inputs (make_consumer enc dec hk c x []))
           = take j (sent inputs)"
    by (auto simp add: in_order_def acked_def)
qed

theorem acknowledge_resolves_oldest_witness:
  "receive toy_platform logging
     ((make_consumer (iv 1) (iv 0) None 1 () [])
        \<lparr>session_key := Some [], pending_acks := [1, 2],
         current_identifier := Some \<lparr>type = ''Acknowledge'', blobs = []\<rparr>\<rparr>)
   = Consume
     ((make_consumer (iv 1) (iv 0) None 1 () [])
        \<lparr>session_key := Some [], pending_acks := [2], trace := [Resolve 1]\<rparr>)"
proof -
  let ?s = "(make_consumer (iv 1) (iv 0) None 1 () [])
        \<lparr>session_key := Some [], pending_acks := [1, 2],
         current_identifier := Some \<lparr>type = ''Acknowledge'', blobs = []\<rparr>\<rparr>"
  have a: "current_identifier ?s = Some \<lparr>type = ''Acknowledge'', blobs = []\<rparr>
      \<and> type \<lparr>type = ''Acknowledge'', blobs = []\<rparr> = ''Acknowledge''
      \<and> fill_message toy_platform (blobs \<lparr>type = ''Acknowledge'', blobs = []\<rparr>) (blob_buffers ?s) []
          = Inr []
      \<and> session_key ?s \<noteq> None"
    by simp
  have p: "pending_acks ?s = [1, 2]"
    by simp
  show ?thesis
    using acknowledge_resolves_oldest[of ?s "\<lparr>type = ''Acknowledge'', blobs = []\<rparr>" toy_platform "[]"
        logging "[]" "iv 1" "iv 0" None 1 "()"] a p
    by (simp add: reset_def emit_def make_consumer_def)
qed

subsection \<open>The cases of \<open>consume\<close>\<close>

lemma consume_stopped:
  assumes "\<not> transport_connection s \<or> busy s"
  shows "consume P cb s = Returned s"
  by (subst consume.simps) (simp only: assms if_True)

lemma consume_waits_for_length:
  assumes "transport_connection s" and "\<not> busy s" and "current_identifier s = None"
    and "identifier_length s = None" and "length (buffer s) < 2"
  shows "consume P cb s = Returned s"
  by (subst consume.simps) (simp add: assms)

lemma consume_waits_for_identifier:
  assumes "transport_connection s" and "\<not> busy s" and "current_identifier s = None"
    and "identifier_length s \<noteq> None \<or> 2 \<le> length (buffer s)"
    and "length (buffer (read_length s)) < the (identifier_length (read_length s))"
  shows "consume P cb s = Returned (read_length s)"
proof -
  have l: "(identifier_length s = None \<and> length (buffer s) < 2) = False"
    using assms(4) by auto
  have "identifier_length (read_length s) \<noteq> None"
    using assms(4) by (auto simp add: read_length_def take_bytes_def)
  then obtain n where n: "identifier_length (read_length s) = Some n"
    by auto
  with assms(5) have w: "length (buffer (read_length s)) < n"
    by simp
  show ?thesis
    by (subst consume.simps) (simp add: assms(1,2,3) l n w Let_def)
qed

lemma consume_decrypts_identifier:
  assumes "transport_connection s" and "\<not> busy s" and "current_identifier s = None"
    and "identifier_length s \<noteq> None \<or> 2 \<le> length (buffer s)"
    and "the (identifier_length (read_length s)) \<le> length (buffer (read_length s))"
    and "session_key s \<noteq> None \<or> handshake_key s \<noteq> None"
  shows "consume P cb s
         = decrypt Decrypt_identifier
             (take (the (identifier_length (read_length s))) (buffer (read_length s)))
             ((read_length s)\<lparr>busy := True,
                buffer := drop (the (identifier_length (read_length s))) (buffer (read_length s))\<rparr>)"
proof -
  have l: "(identifier_length s = None \<and> length (buffer s) < 2) = False"
    using assms(4) by auto
  have "identifier_length (read_length s) \<noteq> None"
    using assms(4) by (auto simp add: read_length_def take_bytes_def)
  then obtain n where n: "identifier_length (read_length s) = Some n"
    by auto
  with assms(5) have w: "(length (buffer (read_length s)) < n) = False"
    by simp
  have k: "(session_key (read_length s) = None \<and> handshake_key (read_length s) = None) = False"
    using assms(6) by (auto simp add: read_length_def take_bytes_def)
  show ?thesis
    by (subst consume.simps) (simp add: assms(1,2,3) l n w k Let_def take_bytes_def)
qed

lemma consume_waits_for_blob:
  assumes "transport_connection s" and "\<not> busy s" and "current_identifier s = Some i"
    and "length (blob_buffers s) < length (blobs i)"
    and "session_key s \<noteq> None \<or> handshake_key s \<noteq> None"
    and "length (buffer s) < blob_length (blobs i ! length (blob_buffers s)) + 16"
  shows "consume P cb s = Returned s"
proof -
  have k: "(session_key s = None \<and> handshake_key s = None) = False"
    using assms(5) by auto
  show ?thesis
    by (subst consume.simps) (simp add: assms(1,2,3,4,6) k Let_def)
qed

lemma consume_decrypts_blob:
  assumes "transport_connection s" and "\<not> busy s" and "current_identifier s = Some i"
    and "length (blob_buffers s) < length (blobs i)"
    and "session_key s \<noteq> None \<or> handshake_key s \<noteq> None"
    and "blob_length (blobs i ! length (blob_buffers s)) + 16 \<le> length (buffer s)"
  shows "consume P cb s
         = decrypt Decrypt_blob
             (take (blob_length (blobs i ! length (blob_buffers s)) + 16) (buffer s))
             (s\<lparr>busy := True,
                buffer := drop (blob_length (blobs i ! length (blob_buffers s)) + 16) (buffer s)\<rparr>)"
proof -
  have k: "(session_key s = None \<and> handshake_key s = None) = False"
    using assms(5) by auto
  have w: "(length (buffer s) < blob_length (blobs i ! length (blob_buffers s)) + 16) = False"
    using assms(6) by simp
  show ?thesis
    by (subst consume.simps) (simp add: assms(1,2,3,4) k w Let_def take_bytes_def)
qed

lemma consume_receives:
  assumes "transport_connection s" and "\<not> busy s" and "current_identifier s = Some i"
    and "length (blobs i) \<le> length (blob_buffers s)"
  shows "consume P cb s
         = (case receive P cb s of
              Consume s \<Rightarrow> consume P cb s
            | Returned s \<Rightarrow> Returned s
            | Thrown e s \<Rightarrow> Thrown e s)"
proof -
  have w: "(length (blob_buffers s) < length (blobs i)) = False"
    using assms(4) by simp
  show ?thesis
    by (subst consume.simps) (simp add: assms(1,2,3) w)
qed

subsection \<open>A record that arrives during the handshake\<close>

text \<open>An initiator, and a platform whose parser knows two identifiers: the one of an
  AuthHello with its \<open>sessionKey\<close> blob, and the one of a StatusSend with no blob.\<close>

definition stalled_platform :: platform where
  "stalled_platform =
     toy_platform\<lparr>decode_identifier :=
       (\<lambda>b. if b = [1] then Some \<lparr>type = ''AuthHello'',
                    blobs = [\<lparr>blob_id = ''sessionKey'', blob_type = ''Buffer'', blob_length = 1\<rparr>]\<rparr>
            else if b = [2] then Some \<lparr>type = ''StatusSend'', blobs = []\<rparr>
            else None)\<rparr>"

definition initiator :: "unit consumer" where
  "initiator = make_consumer (iv 0) (iv 1) (Some [4]) 1 () []"

text \<open>One chunk brings the AuthHello record (an identifier of one byte, a blob of 1 + 16
  bytes) and the StatusSend record that the listener sent right after it; then the
  identifier is decrypted, the blob is decrypted, and the session key is decrypted and
  imported.\<close>

definition stalled_inputs :: "input list" where
  "stalled_inputs =
     [Receive_chunk ([0, 1, 7] @ replicate 17 0 @ [0, 1, 9]),
      Settle (Decrypted [1]),
      Settle (Decrypted [5]),
      Settle (Imported_key [3])]"

lemma stalled_1:
  "step stalled_platform logging (Receive_chunk ([0, 1, 7] @ replicate 17 0 @ [0, 1, 9])) initiator
   = initiator\<lparr>buffer := replicate 17 0 @ [0, 1, 9], busy := True, identifier_length := Some 1,
       ivs := \<lparr>next_encryption_iv = iv 0, next_decryption_iv = \<lparr>fixed_field = 1, counter = 1\<rparr>\<rparr>,
       in_flight := Some (Decrypt_identifier [7] (Some [4]) (be_bytes 4 1 @ be_bytes 8 0))\<rparr>"
  apply (simp add: step_def consume_chunk_def initiator_def make_consumer_def concat_buffers_def
      ArrayBuffer_def)
  apply (subst consume_decrypts_identifier)
        apply (simp_all add: read_length_def take_bytes_def getUint16_def)
  apply (simp add: decrypt_def iv_generator_Inr iv_def MAX_SAFE_INTEGER_def state_of_def)
  done

lemma stalled_2:
  "step stalled_platform logging (Settle (Decrypted [1]))
     (initiator\<lparr>buffer := replicate 17 0 @ [0, 1, 9], busy := True, identifier_length := Some 1,
       ivs := \<lparr>next_encryption_iv = iv 0, next_decryption_iv = \<lparr>fixed_field = 1, counter = 1\<rparr>\<rparr>,
       in_flight := Some (Decrypt_identifier [7] (Some [4]) (be_bytes 4 1 @ be_bytes 8 0))\<rparr>)
   = initiator\<lparr>buffer := [0, 1, 9], busy := True, identifier_length := Some 1,
       current_identifier := Some \<lparr>type = ''AuthHello'',
         blobs = [\<lparr>blob_id = ''sessionKey'', blob_type = ''Buffer'', blob_length = 1\<rparr>]\<rparr>,
       ivs := \<lparr>next_encryption_iv = iv 0, next_decryption_iv = \<lparr>fixed_field = 1, counter = 2\<rparr>\<rparr>,
       in_flight := Some (Decrypt_blob (replicate 17 0) (Some [4]) (be_bytes 4 1 @ be_bytes 8 1))\<rparr>"
  apply (simp add: step_def complete_def stalled_platform_def toy_platform_def initiator_def
      make_consumer_def)
  apply (subst consume_decrypts_blob[where i = "\<lparr>type = ''AuthHello'',
         blobs = [\<lparr>blob_id = ''sessionKey'', blob_type = ''Buffer'', blob_length = 1\<rparr>]\<rparr>"])
        apply simp_all
  apply (simp add: decrypt_def iv_generator_Inr iv_def MAX_SAFE_INTEGER_def caught_def)
  done

lemma stalled_3:
  "step stalled_platform logging (Settle (Decrypted [5]))
     (initiator\<lparr>buffer := [0, 1, 9], busy := True, identifier_length := Some 1,
       current_identifier := Some \<lparr>type = ''AuthHello'',
         blobs = [\<lparr>blob_id = ''sessionKey'', blob_type = ''Buffer'', blob_length = 1\<rparr>]\<rparr>,
       ivs := \<lparr>next_encryption_iv = iv 0, next_decryption_iv = \<lparr>fixed_field = 1, counter = 2\<rparr>\<rparr>,
       in_flight := Some (Decrypt_blob (replicate 17 0) (Some [4]) (be_bytes 4 1 @ be_bytes 8 1))\<rparr>)
   = initiator\<lparr>buffer := [0, 1, 9], busy := True,
       ivs := \<lparr>next_encryption_iv = iv 0, next_decryption_iv = \<lparr>fixed_field = 1, counter = 2\<rparr>\<rparr>,
       in_flight := Some (Decrypt_session_key [(''sessionKey'', Array_buffer [5])])\<rparr>"
  apply (simp add: step_def complete_def initiator_def make_consumer_def)
  apply (subst consume_receives[where i = "\<lparr>type = ''AuthHello'',
         blobs = [\<lparr>blob_id = ''sessionKey'', blob_type = ''Buffer'', blob_length = 1\<rparr>]\<rparr>"])
      apply simp_all
  apply (simp add: receive_def caught_def Let_def)
  done

lemma stalled_4:
  "step stalled_platform logging (Settle (Imported_key [3]))
     (initiator\<lparr>buffer := [0, 1, 9], busy := True,
       ivs := \<lparr>next_encryption_iv = iv 0, next_decryption_iv = \<lparr>fixed_field = 1, counter = 2\<rparr>\<rparr>,
       in_flight := Some (Decrypt_session_key [(''sessionKey'', Array_buffer [5])])\<rparr>)
   = initiator\<lparr>buffer := [0, 1, 9],
       ivs := \<lparr>next_encryption_iv = iv 0, next_decryption_iv = \<lparr>fixed_field = 1, counter = 2\<rparr>\<rparr>,
       session_key := Some [3], seif_connection := Some 1,
       trace := [Called_on_open 1 None Undefined Undefined]\<rparr>"
  by (simp add: step_def complete_def initiator_def make_consumer_def call_def act_def emit_def logging_def)

lemma stalled_run:
  "run stalled_platform logging stalled_inputs initiator
   = initiator\<lparr>buffer := [0, 1, 9],
       ivs := \<lparr>next_encryption_iv = iv 0, next_decryption_iv = \<lparr>fixed_field = 1, counter = 2\<rparr>\<rparr>,
       session_key := Some [3], seif_connection := Some 1,
       trace := [Called_on_open 1 None Undefined Undefined]\<rparr>"
  unfolding run_def stalled_inputs_def foldl.simps stalled_1 stalled_2 stalled_3 stalled_4 ..

lemma stalled_consume:
  "consume stalled_platform logging
     (initiator\<lparr>buffer := [0, 1, 9],
       ivs := \<lparr>next_encryption_iv = iv 0, next_decryption_iv = \<lparr>fixed_field = 1, counter = 2\<rparr>\<rparr>,
       session_key := Some [3], seif_connection := Some 1,
       trace := [Called_on_open 1 None Undefined Undefined]\<rparr>)
   = Returned (initiator\<lparr>buffer := [], busy := True, identifier_length := Some 1,
       ivs := \<lparr>next_encryption_iv = iv 0, next_decryption_iv = \<lparr>fixed_field = 1, counter = 3\<rparr>\<rparr>,
       session_key := Some [3], seif_connection := Some 1,
       trace := [Called_on_open 1 None Undefined Undefined],
       in_flight := Some (Decrypt_identifier [9] (Some [3]) (be_bytes 4 1 @ be_bytes 8 2))\<rparr>)"
  apply (subst consume_decrypts_identifier)
        apply (simp_all add: initiator_def make_consumer_def read_length_def take_bytes_def getUint16_def)
  apply (simp add: decrypt_def iv_generator_Inr MAX_SAFE_INTEGER_def)
  done

lemma consume_chunk_stopped:
  assumes "\<not> transport_connection s \<or> busy s"
  shows "consume_chunk P cb chunk s = Returned (s\<lparr>buffer := buffer s @ chunk\<rparr>)"
  using assms by (simp add: consume_chunk_def concat_buffers_def consume_stopped)

text \<open>
  Claim C9, at an input where the code departs from it. A call of \<open>consume\<close> while \<open>busy\<close> is
  set or the transport connection is gone returns at once and takes no byte
  (\<open>consume_stopped\<close>, \<open>consume_chunk_stopped\<close>), in every run an operation is in flight only
  while \<open>busy\<close> is set (\<open>one_at_a_time_run\<close> at the end of this theory), and the handlers of
  the two AES decryptions of \<open>consume\<close> clear \<open>busy\<close> and call \<open>consume()\<close> again (\<open>complete\<close>). The handlers of the
  operations that \<open>receive\<close> starts during the handshake and for a Redirect clear \<open>busy\<close> and
  do not call \<open>consume()\<close>. An initiator receives, in one chunk, the AuthHello record and
  the StatusSend record that the listener sent right after it. When the session key has
  been decrypted and imported, \<open>on_open\<close> has been called, \<open>busy\<close> is clear, no operation is
  in flight, and the three bytes of the StatusSend record are still in the buffer: parsing
  has not resumed, and it does not until another chunk arrives. A call of \<open>consume()\<close> at
  that point would have started the decryption of the identifier of the StatusSend.
\<close>

theorem handshake_completion_does_not_resume:
  "transport_connection (run stalled_platform logging stalled_inputs initiator)
   \<and> session_key (run stalled_platform logging stalled_inputs initiator) = Some [3]
   \<and> trace (run stalled_platform logging stalled_inputs initiator)
       = [Called_on_open 1 None Undefined Undefined]
   \<and> busy (run stalled_platform logging stalled_inputs initiator) = False
   \<and> in_flight (run stalled_platform logging stalled_inputs initiator) = None
   \<and> buffer (run stalled_platform logging stalled_inputs initiator) = [0, 1, 9]
   \<and> in_flight (state_of (consume stalled_platform logging
         (run stalled_platform logging stalled_inputs initiator)))
       = Some (Decrypt_identifier [9] (Some [3]) [0, 0, 0, 1, 0, 0, 0, 0, 0, 0, 0, 2])"
proof -
  have "be_bytes 4 1 @ be_bytes 8 2 = [0, 0, 0, 1, 0, 0, 0, 0, 0, 0, 0, 2]"
    by (simp add: be_bytes_4 be_bytes_8)
  then show ?thesis
    unfolding stalled_run stalled_consume
    by (simp add: state_of_def initiator_def make_consumer_def)
qed

section \<open>\<open>connect\<close>\<close>

text \<open>The variables of one call of \<open>connect\<close> in \<open>protocol.js\<close>: \<open>transport_connection\<close>,
  whether \<open>consumer\<close> is defined, the generators that \<open>on_transport_open\<close> has made while
  the Promise of \<open>hello\<close> is pending, the parameters \<open>remote_public_key\<close> and
  \<open>connection_info\<close>, which a redirect assigns, the connection object that the next
  consumer will freeze, and the world of the caller.\<close>

record 'u connect_variables =
  connect_transport_connection :: bool
  consumer_defined :: bool
  pending_hello :: "(iv_state \<times> iv_state) option"
  remote_public_key :: buffer
  connection_info :: js
  next_connection_object :: connection
  caller :: 'u

text \<open>The state of \<open>connect\<close> is the consumer it made last, whose world is the variables
  of \<open>connect\<close>. After a redirect and until the next Hello is ready, \<open>consumer\<close> is undefined
  and the last consumer is the one of the old connection, which the caller may still hold
  by its connection object.\<close>

type_synonym 'u connect_state = "'u connect_variables consumer"

text \<open>The \<open>on_close\<close> parameter of \<open>connect\<close> is called with two arguments, or with six
  during a redirect: the connection, the reason, the address, the public key,
  \<open>permanent\<close> and the redirect context.\<close>

type_synonym 'u close_callback =
  "connection option \<Rightarrow> reason \<Rightarrow> js \<Rightarrow> buffer option \<Rightarrow> js \<Rightarrow> js \<Rightarrow> 'u \<Rightarrow> event list \<times> 'u"

text \<open>A callback of the caller, run on the caller's part of the variables.\<close>

definition within_caller ::
  "('u \<Rightarrow> event list \<times> 'u) \<Rightarrow> 'u connect_variables \<Rightarrow> event list \<times> 'u connect_variables" where
  "within_caller f w = (case f (caller w) of (es, u) \<Rightarrow> (es, w\<lparr>caller := u\<rparr>))"

text \<open>\<open>on_consumer_close(...args)\<close>, which \<open>connect\<close> passes to \<open>make_consumer\<close> as \<open>on_close\<close>;
  the consumer calls it with a connection and a reason.\<close>

definition on_consumer_close ::
  "'u close_callback \<Rightarrow> connection option \<Rightarrow> reason \<Rightarrow> 'u connect_variables
   \<Rightarrow> event list \<times> 'u connect_variables" where
  "on_consumer_close the_on_close connection reason w =
     within_caller (the_on_close connection reason Undefined None Undefined Undefined)
       (w\<lparr>connect_transport_connection := False\<rparr>)"

text \<open>The callbacks \<open>connect\<close> passes to \<open>make_consumer\<close>, first without \<open>on_redirect\<close>.\<close>

definition closing_callbacks ::
  "'u callbacks \<Rightarrow> 'u close_callback \<Rightarrow> 'u connect_variables callbacks" where
  "closing_callbacks cb the_on_close =
     \<lparr>on_open = (\<lambda>c k v i. within_caller (on_open cb c k v i)),
      on_message = (\<lambda>c m. within_caller (on_message cb c m)),
      on_close = on_consumer_close the_on_close,
      on_redirect = None\<rparr>"

text \<open>\<open>on_redirect\<close> of \<open>connect\<close>. \<open>consumer.transport_closed\<close> throws a TypeError when
  \<open>consumer\<close> is undefined.\<close>

definition connect_on_redirect ::
  "'u callbacks \<Rightarrow> 'u close_callback \<Rightarrow> connection option \<Rightarrow> js \<Rightarrow> buffer \<Rightarrow> js \<Rightarrow> js
   \<Rightarrow> 'u connect_state \<Rightarrow> 'u connect_variables ending" where
  "connect_on_redirect cb the_on_close connection address public_key permanent redirect_context s =
     (let s = emit [Transport_close] s
      in if \<not> consumer_defined (world s) then Thrown Type_error s
         else
           let s = transport_closed (closing_callbacks cb the_on_close) (Some (Reason ''Redirected.'')) s;
               s = s\<lparr>world := (world s)\<lparr>consumer_defined := False,
                                         connect_transport_connection := False\<rparr>\<rparr>;
               s = call (within_caller
                     (the_on_close connection None address (Some public_key) permanent
                        redirect_context)) s;
               s = s\<lparr>world := (world s)\<lparr>remote_public_key := public_key,
                                         connection_info := redirect_context\<rparr>\<rparr>
           in Returned (emit [Transport_connect address] s))"

definition consumer_callbacks ::
  "'u callbacks \<Rightarrow> 'u close_callback \<Rightarrow> 'u connect_variables callbacks" where
  "consumer_callbacks cb the_on_close =
     (closing_callbacks cb the_on_close)
       \<lparr>on_redirect := Some (connect_on_redirect cb the_on_close)\<rparr>"

text \<open>\<open>on_transport_open\<close>: the generators are made, the first encryption IV is drawn for
  \<open>hello\<close>, and \<open>hello\<close> is called with the remote public key and the connection info as they
  are now.\<close>

definition on_transport_open :: "js \<Rightarrow> 'u connect_state \<Rightarrow> 'u connect_state" where
  "on_transport_open the_hello_value s =
     (let s = s\<lparr>world := (world s)\<lparr>connect_transport_connection := True\<rparr>\<rparr>
      in case iv_generator (iv 0) of
           Inl e \<Rightarrow> s
         | Inr (encryption_iv, generator) \<Rightarrow>
             emit [Called_hello (remote_public_key (world s)) (connection_info (world s))
                     the_hello_value]
               (s\<lparr>world := (world s)\<lparr>pending_hello := Some (generator, iv 1)\<rparr>\<rparr>))"

text \<open>The two handlers of the Promise of \<open>hello\<close>.\<close>

definition hello_resolved :: "buffer \<Rightarrow> buffer \<Rightarrow> 'u connect_state \<Rightarrow> 'u connect_state" where
  "hello_resolved hello_record the_handshake_key s =
     (case pending_hello (world s) of
        None \<Rightarrow> s
      | Some (encryption_generator, decryption_generator) \<Rightarrow>
          let w = (world s)\<lparr>pending_hello := None\<rparr>
          in if \<not> connect_transport_connection w then s\<lparr>world := w\<rparr>
             else
               emit [Transport_send hello_record]
                 (make_consumer encryption_generator decryption_generator (Some the_handshake_key)
                    (next_connection_object w)
                    (w\<lparr>consumer_defined := True,
                       next_connection_object := next_connection_object w + 1\<rparr>)
                    (trace s)))"

definition hello_rejected :: "'u close_callback \<Rightarrow> reason \<Rightarrow> 'u connect_state \<Rightarrow> 'u connect_state" where
  "hello_rejected the_on_close reason s =
     (case pending_hello (world s) of
        None \<Rightarrow> s
      | Some generators \<Rightarrow>
          call (within_caller (the_on_close None reason Undefined None Undefined Undefined))
            (emit [Transport_close] (s\<lparr>world := (world s)\<lparr>pending_hello := None\<rparr>\<rparr>)))"

text \<open>\<open>on_transport_receive\<close> and \<open>on_transport_close\<close>.\<close>

definition on_transport_receive ::
  "platform \<Rightarrow> 'u callbacks \<Rightarrow> 'u close_callback \<Rightarrow> buffer \<Rightarrow> 'u connect_state
   \<Rightarrow> 'u connect_variables ending" where
  "on_transport_receive P cb the_on_close chunk s =
     (if consumer_defined (world s)
      then consume_chunk P (consumer_callbacks cb the_on_close) chunk s
      else Returned
             (call (within_caller
                (the_on_close None (Some (Reason ''Unexpected chunk.'')) Undefined None Undefined
                   Undefined))
                (emit [Transport_close] s)))"

definition on_transport_close ::
  "'u callbacks \<Rightarrow> 'u close_callback \<Rightarrow> reason \<Rightarrow> 'u connect_state \<Rightarrow> 'u connect_state" where
  "on_transport_close cb the_on_close reason s =
     (let s = s\<lparr>world := (world s)\<lparr>connect_transport_connection := False\<rparr>\<rparr>
      in if consumer_defined (world s) then
           let s = transport_closed (consumer_callbacks cb the_on_close) reason s
           in call (within_caller
                (the_on_close (get_seif_connection s) reason Undefined None Undefined Undefined)) s
         else
           call (within_caller (the_on_close None reason Undefined None Undefined Undefined)) s)"

text \<open>The function \<open>close\<close> that \<open>connect\<close> returns.\<close>

definition connect_close ::
  "'u callbacks \<Rightarrow> 'u close_callback \<Rightarrow> reason \<Rightarrow> 'u connect_state \<Rightarrow> 'u connect_state" where
  "connect_close cb the_on_close reason s =
     (let s = s\<lparr>world := (world s)\<lparr>connect_transport_connection := False\<rparr>\<rparr>;
          s = (if consumer_defined (world s)
               then transport_closed (consumer_callbacks cb the_on_close) reason s else s)
      in emit [Transport_close] s)"

text \<open>\<open>connect\<close> itself: nothing is defined yet, and \<open>transport_connect\<close> is called with the
  address. Until the first consumer is made, a consumer with no transport connection
  stands for it: such a consumer does nothing.\<close>

definition connect :: "js \<Rightarrow> buffer \<Rightarrow> js \<Rightarrow> 'u \<Rightarrow> 'u connect_state" where
  "connect address the_remote_public_key the_connection_info u =
     (make_consumer (iv 0) (iv 1) None 0
        \<lparr>connect_transport_connection = False,
         consumer_defined = False,
         pending_hello = None,
         remote_public_key = the_remote_public_key,
         connection_info = the_connection_info,
         next_connection_object = 1,
         caller = u\<rparr>
        [Transport_connect address])\<lparr>transport_connection := False\<rparr>"

subsection \<open>The \<open>on_close\<close> that a party passes to \<open>connect\<close>\<close>

text \<open>Whether a value counts as true in a condition.\<close>

fun truthy :: "js \<Rightarrow> bool" where
  "truthy Undefined = False"
| "truthy (Array_buffer b) = True"
| "truthy (Json JNull) = False"
| "truthy (Json (JBool b)) = b"
| "truthy (Json (JNumber n)) = (n \<noteq> 0)"
| "truthy (Json (JString s)) = (s \<noteq> [])"
| "truthy (Json (JArray vs)) = True"
| "truthy (Json (JObject ps)) = True"

text \<open>The function that \<open>connect\<close> of \<open>party.js\<close> passes as \<open>on_close\<close>, around the \<open>on_close\<close> of
  its caller. With a public key the connection is being redirected: the reason becomes
  \<open>"redirected"\<close>, and a permanent redirect is written to the store.\<close>

definition party_on_close :: "'u callbacks \<Rightarrow> 'u close_callback" where
  "party_on_close cb connection reason address public_key permanent redirect_context u =
     (case public_key of
        None \<Rightarrow> on_close cb connection reason u
      | Some k \<Rightarrow>
          (case on_close cb connection (Some (Reason ''redirected'')) u of
             (es, u) \<Rightarrow>
               ((if truthy permanent then [Called_add_acquaintance address k] else []) @ es, u)))"

subsection \<open>Runs of \<open>connect\<close>\<close>

datatype connect_input =
    Transport_opened
  | Hello_resolved buffer buffer            \<comment> \<open>\<open>hello_record\<close>, \<open>handshake_key\<close>\<close>
  | Hello_rejected reason
  | Transport_received buffer
  | Transport_closed reason
  | Connect_close reason
  | Of_consumer input                       \<comment> \<open>an operation settles, a task runs, the caller uses the connection\<close>

definition connect_step ::
  "platform \<Rightarrow> 'u callbacks \<Rightarrow> 'u close_callback \<Rightarrow> js \<Rightarrow> connect_input \<Rightarrow> 'u connect_state
   \<Rightarrow> 'u connect_state" where
  "connect_step P cb the_on_close the_hello_value i s =
     (case i of
        Transport_opened \<Rightarrow> on_transport_open the_hello_value s
      | Hello_resolved hello_record the_handshake_key \<Rightarrow>
          hello_resolved hello_record the_handshake_key s
      | Hello_rejected reason \<Rightarrow> hello_rejected the_on_close reason s
      | Transport_received chunk \<Rightarrow> state_of (on_transport_receive P cb the_on_close chunk s)
      | Transport_closed reason \<Rightarrow> on_transport_close cb the_on_close reason s
      | Connect_close reason \<Rightarrow> connect_close cb the_on_close reason s
      | Of_consumer (Receive_chunk chunk) \<Rightarrow> s
      | Of_consumer (Call_transport_closed reason) \<Rightarrow> s
      | Of_consumer j \<Rightarrow> step P (consumer_callbacks cb the_on_close) j s)"

definition connect_run ::
  "platform \<Rightarrow> 'u callbacks \<Rightarrow> 'u close_callback \<Rightarrow> js \<Rightarrow> connect_input list \<Rightarrow> 'u connect_state
   \<Rightarrow> 'u connect_state" where
  "connect_run P cb the_on_close the_hello_value inputs s =
     foldl (\<lambda>s i. connect_step P cb the_on_close the_hello_value i s) s inputs"

subsection \<open>The events only grow\<close>

definition extends :: "'x consumer \<Rightarrow> 'x consumer \<Rightarrow> bool" where
  "extends s s' = (\<exists>es. trace s' = trace s @ es)"

lemma extends_refl: "extends s s"
  by (simp add: extends_def)

lemma extends_trans: "extends s s' \<Longrightarrow> extends s' s'' \<Longrightarrow> extends s s''"
  by (auto simp add: extends_def)

lemma extends_same: "trace s' = trace s \<Longrightarrow> extends s s'"
  by (simp add: extends_def)

lemma extends_emit: "extends s (emit es s)"
  by (simp add: extends_def emit_def)

lemma extends_call: "extends s (call f s)"
  using call_trace[of f s] by (simp add: extends_def)

lemma extends_after_call: "extends s s' \<Longrightarrow> extends s (call f s')"
  by (rule extends_trans[OF _ extends_call])

lemma extends_after_emit: "extends s s' \<Longrightarrow> extends s (emit es s')"
  by (rule extends_trans[OF _ extends_emit])

lemma extends_updates:
  "extends s (s'\<lparr>transport_connection := v0\<rparr>) = extends s s'"
  "extends s (s'\<lparr>handshake_key := v1\<rparr>) = extends s s'"
  "extends s (s'\<lparr>ivs := v2\<rparr>) = extends s s'"
  "extends s (s'\<lparr>session_key := v3\<rparr>) = extends s s'"
  "extends s (s'\<lparr>seif_connection := v4\<rparr>) = extends s s'"
  "extends s (s'\<lparr>buffer := v5\<rparr>) = extends s s'"
  "extends s (s'\<lparr>busy := v6\<rparr>) = extends s s'"
  "extends s (s'\<lparr>current_identifier := v7\<rparr>) = extends s s'"
  "extends s (s'\<lparr>identifier_length := v8\<rparr>) = extends s s'"
  "extends s (s'\<lparr>blob_buffers := v9\<rparr>) = extends s s'"
  "extends s (s'\<lparr>queue := v10\<rparr>) = extends s s'"
  "extends s (s'\<lparr>pending_acks := v11\<rparr>) = extends s s'"
  "extends s (s'\<lparr>in_flight := v12\<rparr>) = extends s s'"
  "extends s (s'\<lparr>connection_object := v13\<rparr>) = extends s s'"
  "extends s (s'\<lparr>world := v14\<rparr>) = extends s s'"
  by (simp_all add: extends_def)

lemma extends_destroy: "extends s (destroy cb reason situation_option s)"
proof (cases "transport_connection s \<and> situation_option = None")
  case True
  let ?s1 = "s\<lparr>trace := trace s @ map (\<lambda>w. Reject w reason) (pending_acks s) @ [Transport_close]\<rparr>"
  have "extends s ?s1"
    by (simp add: extends_def)
  then have "extends s (call (on_close cb (seif_connection s) reason) ?s1)"
    by (rule extends_after_call)
  then have "extends s ((call (on_close cb (seif_connection s) reason) ?s1)\<lparr>transport_connection := False\<rparr>)"
    by (simp add: extends_def)
  with True show ?thesis
    by (simp add: destroy_modes(2))
next
  case False
  then show ?thesis
    by (auto simp add: extends_def destroy_def Let_def emit_def)
qed

lemma extends_receive: "extends s (state_of (receive P cb s))"
proof (cases "current_identifier s")
  case None
  then show ?thesis
    by (simp add: receive_def state_of_def extends_refl)
next
  case (Some i)
  show ?thesis
  proof (cases "fill_message P (blobs i) (blob_buffers s) []")
    case (Inl e)
    with Some show ?thesis
      by (simp add: receive_def state_of_def extends_destroy)
  next
    case (Inr message)
    have r: "extends s (reset s)"
      by (simp add: extends_def reset_def)
    have d: "extends s (destroy cb reason None (reset s))" for reason
      by (rule extends_trans[OF r extends_destroy])
    show ?thesis
    proof (cases "session_key s")
      case None
      with Some Inr show ?thesis
        by (simp add: receive_handshake state_of_def extends_def reset_def)
    next
      case k: (Some k)
      have c: "extends s (call f (reset s))" for f
        by (rule extends_trans[OF r extends_call])
      have q: "extends s (call f (enqueue t (reset s)))" for f t
        by (rule extends_after_call) (simp add: extends_def enqueue_def reset_def)
      have e: "extends s (emit es ((reset s)\<lparr>pending_acks := ws\<rparr>))" for es ws
        by (simp add: extends_def emit_def reset_def)
      have b: "extends s ((reset s)\<lparr>busy := True\<rparr>)"
        "extends s ((reset s)\<lparr>busy := True, in_flight := f\<rparr>)" for f
        by (simp_all add: extends_def reset_def)
      from k Some Inr show ?thesis
        by (simp add: receive_open state_of_def d c q e b
            split: js.splits json.splits list.splits)
    qed
  qed
qed

lemma extends_consume: "extends s (state_of (consume P cb s))"
proof (rule consume_relates)
  show "extends a b \<Longrightarrow> extends b c \<Longrightarrow> extends a c" for a b c :: "'a consumer"
    by (rule extends_trans)
  show "extends a (state_of (decrypt kind cipher (a\<lparr>busy := True, buffer := b\<rparr>)))"
    for a :: "'a consumer" and kind cipher b
    by (simp add: extends_def decrypt_def state_of_def split: sum.splits prod.splits)
qed (simp_all add: extends_refl extends_destroy extends_receive extends_same)

lemma extends_caught: "extends s (caught cb (consume P cb s))"
proof (cases "consume P cb s")
  case (Thrown e s')
  have "extends s s'"
    using extends_consume[of s P cb] Thrown by (simp add: state_of_def)
  then have "extends s (destroy cb (Some e) None s')"
    by (rule extends_trans) (rule extends_destroy)
  then show ?thesis
    by (simp add: caught_def Thrown)
qed (use extends_consume[of s P cb] in \<open>simp_all add: caught_def state_of_def\<close>)

lemma extends_after_destroy: "extends s s' \<Longrightarrow> extends s (destroy cb reason situation_option s')"
  by (rule extends_trans[OF _ extends_destroy])

lemma extends_connect_on_redirect:
  "extends s (state_of (connect_on_redirect cb oc connection address public_key permanent
     redirect_context s))"
  by (simp add: connect_on_redirect_def Let_def state_of_def transport_closed_def
      extends_updates extends_after_emit extends_after_call extends_after_destroy extends_refl)

text \<open>A consumer whose \<open>on_redirect\<close>, if it has one, only adds events.\<close>

definition redirect_extends :: "'x callbacks \<Rightarrow> bool" where
  "redirect_extends cb =
     (case on_redirect cb of
        None \<Rightarrow> True
      | Some f \<Rightarrow> (\<forall>c a k p r s. extends s (state_of (f c a k p r s))))"

lemma redirect_extends_consumer_callbacks: "redirect_extends (consumer_callbacks cb oc)"
  by (simp add: redirect_extends_def consumer_callbacks_def extends_connect_on_redirect)

lemma extends_complete:
  assumes "redirect_extends cb"
  shows "extends s (complete P cb outcome s)"
proof -
  have n: "extends s (s\<lparr>in_flight := None\<rparr>)"
    by (simp add: extends_def)
  have d: "extends s (destroy cb r None (s\<lparr>in_flight := None\<rparr>))" for r
    by (rule extends_trans[OF n extends_destroy])
  have c: "extends s (caught cb (consume P cb s'))" if "extends s s'" for s'
    using that by (rule extends_trans) (rule extends_caught)
  have c1: "extends s (caught cb (consume P cb
               (s\<lparr>in_flight := None, current_identifier := i, busy := False\<rparr>)))" for i
    by (rule c) (simp add: extends_def)
  have c2: "extends s (caught cb (consume P cb
               (s\<lparr>in_flight := None, blob_buffers := b, busy := False\<rparr>)))" for b
    by (rule c) (simp add: extends_def)
  show ?thesis
  proof (cases "in_flight s")
    case None
    then show ?thesis
      by (simp add: complete_def extends_refl)
  next
    case (Some operation)
    show ?thesis
    proof (cases operation)
      case (Decrypt_identifier x1 x2 x3)
      with Some show ?thesis
        by (cases outcome) (simp_all add: complete_def d c1 extends_refl split: option.splits)
    next
      case (Decrypt_blob x1 x2 x3)
      with Some show ?thesis
        by (cases outcome) (simp_all add: complete_def d c2 extends_refl)
    next
      case (Auth_hello message)
      with Some show ?thesis
        by (cases outcome)
          (simp_all add: complete_def d Let_def extends_refl extends_updates extends_after_emit
            extends_after_call)
    next
      case (Decrypt_session_key message)
      with Some show ?thesis
        by (cases outcome)
          (simp_all add: complete_def d Let_def extends_refl extends_updates extends_after_emit
            extends_after_call)
    next
      case (Import_redirect_key message)
      show ?thesis
      proof (cases outcome)
        case (Imported_key public_key)
        show ?thesis
        proof (cases "on_redirect cb")
          case None
          with Some Import_redirect_key Imported_key show ?thesis
            by (simp add: complete_def d)
        next
          case f: (Some f)
          let ?e = "f (seif_connection s) (get message ''address'') public_key
                       (get message ''permanent'') (get message ''redirectContext'')
                       (s\<lparr>in_flight := None\<rparr>)"
          from assms f have "extends (s\<lparr>in_flight := None\<rparr>) (state_of ?e)"
            by (simp add: redirect_extends_def)
          with n have e: "extends s (state_of ?e)"
            by (rule extends_trans)
          have "extends s (complete P cb outcome s)"
          proof (cases ?e)
            case (Returned s')
            with e have "extends s (s'\<lparr>busy := False\<rparr>)"
              by (simp add: state_of_def extends_def)
            with Some Import_redirect_key Imported_key f Returned show ?thesis
              by (simp add: complete_def)
          next
            case (Consume s')
            with e have "extends s (s'\<lparr>busy := False\<rparr>)"
              by (simp add: state_of_def extends_def)
            with Some Import_redirect_key Imported_key f Consume show ?thesis
              by (simp add: complete_def)
          next
            case (Thrown exception s')
            with e have "extends s s'"
              by (simp add: state_of_def)
            then have "extends s (destroy cb (Some exception) None s')"
              by (rule extends_trans) (rule extends_destroy)
            with Some Import_redirect_key Imported_key f Thrown show ?thesis
              by (simp add: complete_def)
          qed
          then show ?thesis .
        qed
      qed (use Some Import_redirect_key in \<open>simp_all add: complete_def d extends_refl\<close>)
    qed
  qed
qed

lemma extends_consumer_make_record:
  "consumer_make_record P t message s = (r, s') \<Longrightarrow> trace s' = trace s"
  by (auto simp add: consumer_make_record_def split: prod.splits)

lemma extends_callback: "callback P t s = (r, s') \<Longrightarrow> trace s' = trace s"
  by (drule callback_same) simp

lemma extends_run_task: "extends s (run_task P cb s)"
proof (cases "queue s")
  case Nil
  then show ?thesis
    by (simp add: run_task_def extends_refl)
next
  case (Cons t ts)
  obtain r s' where c: "callback P t (s\<lparr>queue := ts\<rparr>) = (r, s')"
    by (cases "callback P t (s\<lparr>queue := ts\<rparr>)")
  from extends_callback[OF c] have s': "extends s s'"
    by (simp add: extends_def)
  have q: "extends s (s\<lparr>queue := ts\<rparr>)"
    by (simp add: extends_def)
  have d: "extends s (destroy cb reason None s')" for reason
    by (rule extends_trans[OF s' extends_destroy])
  have e: "extends s (emit es s')" for es
    by (rule extends_trans[OF s' extends_emit])
  show ?thesis
    by (cases r) (simp_all add: run_task_def Let_def Cons c q d e s')
qed

lemma extends_step:
  assumes "redirect_extends cb"
  shows "extends s (step P cb i s)"
proof (cases i)
  case (Receive_chunk chunk)
  have "extends s (s\<lparr>buffer := concat_buffers (buffer s) chunk\<rparr>)"
    by (simp add: extends_def)
  then have "extends s (state_of (consume_chunk P cb chunk s))"
    unfolding consume_chunk_def by (rule extends_trans) (rule extends_consume)
  with Receive_chunk show ?thesis
    by (simp add: step_def)
next
  case (Settle outcome)
  then show ?thesis
    by (simp add: step_def extends_complete[OF assms])
next
  case Run_task
  then show ?thesis
    by (simp add: step_def extends_run_task)
qed (simp_all add: step_def send_def status_send_def redirect_def enqueue_def close_def
    transport_closed_def extends_destroy extends_same)

lemma extends_on_transport_open: "extends s (on_transport_open the_hello_value s)"
  by (simp add: extends_def on_transport_open_def Let_def emit_def split: sum.splits prod.splits)

lemma extends_hello_resolved: "extends s (hello_resolved hello_record the_handshake_key s)"
  by (simp add: extends_def hello_resolved_def Let_def emit_def make_consumer_def
      split: option.splits prod.splits)

lemma extends_hello_rejected: "extends s (hello_rejected oc reason s)"
  by (simp add: hello_rejected_def extends_updates extends_after_emit extends_after_call
      extends_refl split: option.splits)

lemma extends_on_transport_receive: "extends s (state_of (on_transport_receive P cb oc chunk s))"
proof (cases "consumer_defined (world s)")
  case True
  have "extends s (s\<lparr>buffer := concat_buffers (buffer s) chunk\<rparr>)"
    by (simp add: extends_def)
  then have "extends s (state_of (consume_chunk P (consumer_callbacks cb oc) chunk s))"
    unfolding consume_chunk_def by (rule extends_trans) (rule extends_consume)
  with True show ?thesis
    by (simp add: on_transport_receive_def)
next
  case False
  then show ?thesis
    by (simp add: on_transport_receive_def state_of_def extends_after_emit extends_after_call
        extends_refl)
qed

lemma extends_on_transport_close: "extends s (on_transport_close cb oc reason s)"
  by (simp add: on_transport_close_def Let_def transport_closed_def extends_updates
      extends_after_call extends_after_destroy extends_refl)

lemma extends_connect_close: "extends s (connect_close cb oc reason s)"
  by (simp add: connect_close_def Let_def transport_closed_def extends_updates
      extends_after_emit extends_after_destroy extends_refl)

lemma extends_connect_step: "extends s (connect_step P cb oc the_hello_value i s)"
proof (cases i)
  case (Of_consumer j)
  have "extends s (step P (consumer_callbacks cb oc) j s)"
    by (rule extends_step) (rule redirect_extends_consumer_callbacks)
  with Of_consumer show ?thesis
    by (cases j) (simp_all add: connect_step_def extends_refl)
qed (simp_all add: connect_step_def extends_on_transport_open extends_hello_resolved
    extends_hello_rejected extends_on_transport_receive extends_on_transport_close
    extends_connect_close)

lemma extends_connect_run: "extends s (connect_run P cb oc the_hello_value inputs s)"
proof (induction inputs rule: rev_induct)
  case Nil
  show ?case
    by (simp add: connect_run_def extends_refl)
next
  case (snoc i inputs)
  have "extends (connect_run P cb oc the_hello_value inputs s)
          (connect_step P cb oc the_hello_value i (connect_run P cb oc the_hello_value inputs s))"
    by (rule extends_connect_step)
  with snoc have "extends s
          (connect_step P cb oc the_hello_value i (connect_run P cb oc the_hello_value inputs s))"
    by (rule extends_trans)
  then show ?case
    by (simp add: connect_run_def)
qed

text \<open>The handler of the key import of a Redirect, in a consumer that \<open>connect\<close> made for a
  party.\<close>

lemma complete_redirect:
  assumes "in_flight s = Some (Import_redirect_key message)"
    and "transport_connection s" and "consumer_defined (world s)"
  shows "complete P (consumer_callbacks cb (party_on_close cb)) (Imported_key public_key) s
         = s\<lparr>in_flight := None,
              transport_connection := False,
              busy := False,
              world := (world s)
                \<lparr>consumer_defined := False,
                 connect_transport_connection := False,
                 caller := snd (on_close cb (seif_connection s) (Some (Reason ''redirected''))
                                  (caller (world s))),
                 remote_public_key := public_key,
                 connection_info := get message ''redirectContext''\<rparr>,
              trace := trace s
                @ [Transport_close]
                @ map (\<lambda>w. Reject w (Some (Reason ''Redirected.''))) (pending_acks s)
                @ (if truthy (get message ''permanent'')
                   then [Called_add_acquaintance (get message ''address'') public_key] else [])
                @ fst (on_close cb (seif_connection s) (Some (Reason ''redirected''))
                         (caller (world s)))
                @ [Transport_connect (get message ''address'')]\<rparr>"
  using assms
  by (simp add: complete_def consumer_callbacks_def closing_callbacks_def connect_on_redirect_def
      Let_def emit_def call_closed transport_closed_def destroy_def within_caller_def
      party_on_close_def split: prod.splits)

text \<open>
  Claim C8. An initiator that \<open>connect\<close> of a party has made has parsed a Redirect record
  and is importing its public key. When the import settles with the key, \<open>on_redirect\<close> of
  \<open>connect\<close> runs: the transport is closed, the waiters of the old consumer are rejected,
  a permanent redirect is written to the store, and the caller's \<open>on_close\<close> is called with
  the old connection and the reason \<open>"redirected"\<close>; only then is \<open>transport_connect\<close> called
  with the address of the record. At that point there is no consumer, so no new connection
  yet, the remote public key is the imported key and the connection info is the redirect
  context of the record: the Hello that \<open>on_transport_open\<close> makes for the new transport is
  made for that key and carries that connection info. Whatever happens afterwards only adds
  events after these, so that every \<open>on_open\<close> of the new connection comes after the
  \<open>on_close\<close> of the old one.
\<close>

theorem redirect_closes_before_connecting:
  assumes "in_flight s = Some (Import_redirect_key message)"
    and "transport_connection s"
    and "consumer_defined (world s)"
    and "s' = complete P (consumer_callbacks cb (party_on_close cb)) (Imported_key public_key) s"
  shows "trace s' = trace s
           @ [Transport_close]
           @ map (\<lambda>w. Reject w (Some (Reason ''Redirected.''))) (pending_acks s)
           @ (if truthy (get message ''permanent'')
              then [Called_add_acquaintance (get message ''address'') public_key] else [])
           @ fst (on_close cb (seif_connection s) (Some (Reason ''redirected'')) (caller (world s)))
           @ [Transport_connect (get message ''address'')]
       \<and> fst (on_close logging (seif_connection s) (Some (Reason ''redirected'')) u)
           = [Called_on_close (seif_connection s) (Some (Reason ''redirected''))]
       \<and> remote_public_key (world s') = public_key
       \<and> connection_info (world s') = get message ''redirectContext''
       \<and> consumer_defined (world s') = False
       \<and> transport_connection s' = False
       \<and> trace (on_transport_open the_hello_value s')
           = trace s' @ [Called_hello public_key (get message ''redirectContext'') the_hello_value]
       \<and> (\<exists>later. trace (connect_run P cb (party_on_close cb) the_hello_value inputs s')
                    = trace s' @ later)"
proof -
  note c = complete_redirect[OF assms(1,2,3), of P cb public_key]
  have t: "trace s' = trace s
           @ [Transport_close]
           @ map (\<lambda>w. Reject w (Some (Reason ''Redirected.''))) (pending_acks s)
           @ (if truthy (get message ''permanent'')
              then [Called_add_acquaintance (get message ''address'') public_key] else [])
           @ fst (on_close cb (seif_connection s) (Some (Reason ''redirected'')) (caller (world s)))
           @ [Transport_connect (get message ''address'')]"
    unfolding assms(4) c by simp
  have w: "remote_public_key (world s') = public_key"
    "connection_info (world s') = get message ''redirectContext''"
    "consumer_defined (world s') = False"
    "transport_connection s' = False"
    unfolding assms(4) c by simp_all
  have l: "fst (on_close logging (seif_connection s) (Some (Reason ''redirected'')) u)
           = [Called_on_close (seif_connection s) (Some (Reason ''redirected''))]"
    by (simp add: logging_def)
  have "iv_generator (iv 0) = Inr (be_bytes 4 0 @ be_bytes 8 0, (iv 0)\<lparr>counter := 1\<rparr>)"
    using iv_generator_Inr[of "iv 0"] by (simp add: iv_def MAX_SAFE_INTEGER_def)
  then have h: "trace (on_transport_open the_hello_value s')
           = trace s' @ [Called_hello public_key (get message ''redirectContext'') the_hello_value]"
    by (simp add: on_transport_open_def Let_def emit_def w)
  have r: "\<exists>later. trace (connect_run P cb (party_on_close cb) the_hello_value inputs s')
                    = trace s' @ later"
    using extends_connect_run[of s' P cb "party_on_close cb" the_hello_value inputs]
    by (simp add: extends_def)
  from t l w h r show ?thesis
    by (intro conjI)
qed

text \<open>An initiator with an open connection, one waiter, and the key import of a permanent
  Redirect in flight.\<close>

definition redirected :: "unit connect_state" where
  "redirected =
     (make_consumer (calls 1 (iv 0)) (iv 1) (Some [4]) 1
        \<lparr>connect_transport_connection = True,
         consumer_defined = True,
         pending_hello = None,
         remote_public_key = [1],
         connection_info = Undefined,
         next_connection_object = 2,
         caller = ()\<rparr>
        [])
       \<lparr>session_key := Some [3], seif_connection := Some 1, busy := True, pending_acks := [5],
        in_flight := Some (Import_redirect_key
          [(''address'', Json (JString ''b'')), (''publicKey'', Json (JString ''0a'')),
           (''permanent'', Json (JBool True)), (''redirectContext'', Json (JNumber 7))])\<rparr>"

theorem redirect_closes_before_connecting_witness:
  "trace (complete toy_platform (consumer_callbacks logging (party_on_close logging))
            (Imported_key [10]) redirected)
     = [Transport_close,
        Reject 5 (Some (Reason ''Redirected.'')),
        Called_add_acquaintance (Json (JString ''b'')) [10],
        Called_on_close (Some 1) (Some (Reason ''redirected'')),
        Transport_connect (Json (JString ''b''))]
   \<and> trace (on_transport_open (Json (JNumber 0))
        (complete toy_platform (consumer_callbacks logging (party_on_close logging))
            (Imported_key [10]) redirected))
     = [Transport_close,
        Reject 5 (Some (Reason ''Redirected.'')),
        Called_add_acquaintance (Json (JString ''b'')) [10],
        Called_on_close (Some 1) (Some (Reason ''redirected'')),
        Transport_connect (Json (JString ''b'')),
        Called_hello [10] (Json (JNumber 7)) (Json (JNumber 0))]"
proof -
  have a: "in_flight redirected = Some (Import_redirect_key
          [(''address'', Json (JString ''b'')), (''publicKey'', Json (JString ''0a'')),
           (''permanent'', Json (JBool True)), (''redirectContext'', Json (JNumber 7))])"
    by (simp add: redirected_def)
  have b: "transport_connection redirected"
    by (simp add: redirected_def make_consumer_def)
  have c: "consumer_defined (world redirected)"
    by (simp add: redirected_def make_consumer_def)
  have d: "trace redirected = []" "pending_acks redirected = [5]" "seif_connection redirected = Some 1"
    by (simp_all add: redirected_def make_consumer_def)
  show ?thesis
    using redirect_closes_before_connecting[OF a b c refl,
        where P = toy_platform and cb = logging and public_key = "[10]" and u = "()"
          and the_hello_value = "Json (JNumber 0)" and inputs = "[]"]
    by (simp add: d logging_def)
qed

subsection \<open>One operation at a time\<close>

text \<open>Between two states of a consumer: \<open>busy\<close> has not been cleared, and if another
  operation is in flight then \<open>busy\<close> is set.\<close>

definition kept_busy :: "'x consumer \<Rightarrow> 'x consumer \<Rightarrow> bool" where
  "kept_busy s s' = ((busy s \<longrightarrow> busy s') \<and> (in_flight s' \<noteq> in_flight s \<longrightarrow> busy s'))"

text \<open>The invariant: while an operation is in flight, \<open>busy\<close> is set.\<close>

definition one_at_a_time :: "'x consumer \<Rightarrow> bool" where
  "one_at_a_time s = (in_flight s \<noteq> None \<longrightarrow> busy s)"

lemma kept_busy_refl: "kept_busy s s"
  by (simp add: kept_busy_def)

lemma kept_busy_trans: "kept_busy s s' \<Longrightarrow> kept_busy s' s'' \<Longrightarrow> kept_busy s s''"
  by (auto simp add: kept_busy_def)

lemma kept_busy_destroy: "kept_busy s (destroy cb reason situation_option s)"
  by (simp add: kept_busy_def destroy_def Let_def emit_def)

lemma kept_busy_decrypt: "kept_busy s (state_of (decrypt kind cipher (s\<lparr>busy := True, buffer := b\<rparr>)))"
  by (simp add: kept_busy_def decrypt_def state_of_def split: sum.splits prod.splits)

lemma kept_busy_receive: "kept_busy s (state_of (receive P cb s))"
proof (cases "current_identifier s")
  case None
  then show ?thesis
    by (simp add: receive_def state_of_def kept_busy_refl)
next
  case (Some i)
  show ?thesis
  proof (cases "fill_message P (blobs i) (blob_buffers s) []")
    case (Inl e)
    with Some show ?thesis
      by (simp add: receive_def state_of_def kept_busy_destroy)
  next
    case (Inr message)
    have r: "kept_busy s (reset s)"
      by (simp add: kept_busy_def reset_def)
    have d: "kept_busy s (destroy cb reason None (reset s))" for reason
      by (rule kept_busy_trans[OF r kept_busy_destroy])
    show ?thesis
    proof (cases "session_key s")
      case None
      with Some Inr show ?thesis
        by (simp add: receive_handshake state_of_def kept_busy_def reset_def)
    next
      case k: (Some k)
      have c: "kept_busy s (call f (reset s))" for f
        by (simp add: kept_busy_def reset_def)
      have q: "kept_busy s (call f (enqueue t (reset s)))" for f t
        by (simp add: kept_busy_def enqueue_def reset_def)
      have e: "kept_busy s (emit es ((reset s)\<lparr>pending_acks := ws\<rparr>))" for es ws
        by (simp add: kept_busy_def emit_def reset_def)
      have b: "kept_busy s ((reset s)\<lparr>busy := True\<rparr>)"
        "kept_busy s ((reset s)\<lparr>busy := True, in_flight := f\<rparr>)" for f
        by (simp_all add: kept_busy_def reset_def)
      from k Some Inr show ?thesis
        by (simp add: receive_open state_of_def d c q e b
            split: js.splits json.splits list.splits)
    qed
  qed
qed

lemma kept_busy_consume: "kept_busy s (state_of (consume P cb s))"
proof (rule consume_relates)
  show "kept_busy a b \<Longrightarrow> kept_busy b c \<Longrightarrow> kept_busy a c" for a b c :: "'a consumer"
    by (rule kept_busy_trans)
  show "kept_busy a (state_of (decrypt kind cipher (a\<lparr>busy := True, buffer := b\<rparr>)))"
    for a :: "'a consumer" and kind cipher b
    by (rule kept_busy_decrypt)
  show "kept_busy a (destroy cb r None a)" for a r
    by (rule kept_busy_destroy)
  show "kept_busy a (state_of (receive P cb a))" for a
    by (rule kept_busy_receive)
qed (simp_all add: kept_busy_def)

lemma one_at_a_time_kept: "one_at_a_time s \<Longrightarrow> kept_busy s s' \<Longrightarrow> one_at_a_time s'"
  by (auto simp add: one_at_a_time_def kept_busy_def)

lemma one_at_a_time_caught:
  assumes "one_at_a_time s"
  shows "one_at_a_time (caught cb (consume P cb s))"
proof -
  have "kept_busy s (caught cb (consume P cb s))"
  proof (cases "consume P cb s")
    case (Thrown e s')
    have "kept_busy s s'"
      using kept_busy_consume[of s P cb] Thrown by (simp add: state_of_def)
    then have "kept_busy s (destroy cb (Some e) None s')"
      by (rule kept_busy_trans) (rule kept_busy_destroy)
    then show ?thesis
      by (simp add: caught_def Thrown)
  qed (use kept_busy_consume[of s P cb] in \<open>simp_all add: caught_def state_of_def\<close>)
  with assms show ?thesis
    by (rule one_at_a_time_kept)
qed

text \<open>A consumer whose \<open>on_redirect\<close>, if it has one, starts no operation.\<close>

definition redirect_starts_nothing :: "'x callbacks \<Rightarrow> bool" where
  "redirect_starts_nothing cb =
     (case on_redirect cb of
        None \<Rightarrow> True
      | Some f \<Rightarrow> (\<forall>c a k p r s. in_flight (state_of (f c a k p r s)) = in_flight s))"

lemma redirect_starts_nothing_logging: "redirect_starts_nothing logging"
  by (simp add: redirect_starts_nothing_def logging_def)

lemma redirect_starts_nothing_consumer_callbacks:
  "redirect_starts_nothing (consumer_callbacks cb oc)"
  by (simp add: redirect_starts_nothing_def consumer_callbacks_def connect_on_redirect_def
      Let_def state_of_def emit_def transport_closed_def destroy_def split: prod.splits)

lemma one_at_a_time_complete:
  assumes "redirect_starts_nothing cb" and "one_at_a_time s"
  shows "one_at_a_time (complete P cb outcome s)"
proof -
  have d: "one_at_a_time (destroy cb r None (s\<lparr>in_flight := None\<rparr>))" for r
    by (simp add: one_at_a_time_def destroy_def Let_def emit_def)
  have c1: "one_at_a_time (caught cb (consume P cb
               (s\<lparr>in_flight := None, current_identifier := i, busy := False\<rparr>)))" for i
    by (rule one_at_a_time_caught) (simp add: one_at_a_time_def)
  have c2: "one_at_a_time (caught cb (consume P cb
               (s\<lparr>in_flight := None, blob_buffers := b, busy := False\<rparr>)))" for b
    by (rule one_at_a_time_caught) (simp add: one_at_a_time_def)
  show ?thesis
  proof (cases "in_flight s")
    case None
    with assms(2) show ?thesis
      by (simp add: complete_def)
  next
    case (Some operation)
    show ?thesis
    proof (cases operation)
      case (Decrypt_identifier x1 x2 x3)
      with Some assms(2) show ?thesis
        by (cases outcome) (simp_all add: complete_def d c1 split: option.splits)
    next
      case (Decrypt_blob x1 x2 x3)
      with Some assms(2) show ?thesis
        by (cases outcome) (simp_all add: complete_def d c2)
    next
      case (Auth_hello message)
      with Some assms(2) show ?thesis
        by (cases outcome)
          (simp_all add: complete_def d Let_def,
            simp_all add: one_at_a_time_def emit_def)
    next
      case (Decrypt_session_key message)
      with Some assms(2) show ?thesis
        by (cases outcome)
          (simp_all add: complete_def d Let_def,
            simp_all add: one_at_a_time_def emit_def)
    next
      case (Import_redirect_key message)
      show ?thesis
      proof (cases outcome)
        case (Imported_key public_key)
        show ?thesis
        proof (cases "on_redirect cb")
          case None
          with Some Import_redirect_key Imported_key show ?thesis
            by (simp add: complete_def d)
        next
          case f: (Some f)
          let ?e = "f (seif_connection s) (get message ''address'') public_key
                       (get message ''permanent'') (get message ''redirectContext'')
                       (s\<lparr>in_flight := None\<rparr>)"
          from assms(1) f have n: "in_flight (state_of ?e) = None"
            by (simp add: redirect_starts_nothing_def)
          have "one_at_a_time (complete P cb outcome s)"
          proof (cases ?e)
            case (Returned s')
            with n have "one_at_a_time (s'\<lparr>busy := False\<rparr>)"
              by (simp add: state_of_def one_at_a_time_def)
            with Some Import_redirect_key Imported_key f Returned show ?thesis
              by (simp add: complete_def)
          next
            case (Consume s')
            with n have "one_at_a_time (s'\<lparr>busy := False\<rparr>)"
              by (simp add: state_of_def one_at_a_time_def)
            with Some Import_redirect_key Imported_key f Consume show ?thesis
              by (simp add: complete_def)
          next
            case (Thrown exception s')
            with n have "one_at_a_time s'"
              by (simp add: state_of_def one_at_a_time_def)
            then have "one_at_a_time (destroy cb (Some exception) None s')"
              by (rule one_at_a_time_kept) (rule kept_busy_destroy)
            with Some Import_redirect_key Imported_key f Thrown show ?thesis
              by (simp add: complete_def)
          qed
          then show ?thesis .
        qed
      qed (use Some Import_redirect_key assms(2) in \<open>simp_all add: complete_def d\<close>)
    qed
  qed
qed

lemma callback_keeps: "callback P t s = (r, s') \<Longrightarrow> busy s' = busy s \<and> in_flight s' = in_flight s"
  by (drule callback_same) simp

lemma kept_busy_run_task: "kept_busy s (run_task P cb s)"
proof (cases "queue s")
  case Nil
  then show ?thesis
    by (simp add: run_task_def kept_busy_refl)
next
  case (Cons t ts)
  obtain r s' where c: "callback P t (s\<lparr>queue := ts\<rparr>) = (r, s')"
    by (cases "callback P t (s\<lparr>queue := ts\<rparr>)")
  from callback_keeps[OF c] have s': "kept_busy s s'"
    by (simp add: kept_busy_def)
  have q: "kept_busy s (s\<lparr>queue := ts\<rparr>)"
    by (simp add: kept_busy_def)
  have d: "kept_busy s (destroy cb reason None s')" for reason
    by (rule kept_busy_trans[OF s' kept_busy_destroy])
  have e: "kept_busy s (emit es s')" for es
    using s' by (simp add: kept_busy_def emit_def)
  show ?thesis
    by (cases r) (simp_all add: run_task_def Let_def Cons c q d e s')
qed

lemma one_at_a_time_step:
  assumes "redirect_starts_nothing cb" and "one_at_a_time s"
  shows "one_at_a_time (step P cb i s)"
proof (cases i)
  case (Receive_chunk chunk)
  have "kept_busy s (s\<lparr>buffer := concat_buffers (buffer s) chunk\<rparr>)"
    by (simp add: kept_busy_def)
  then have "kept_busy s (state_of (consume_chunk P cb chunk s))"
    unfolding consume_chunk_def by (rule kept_busy_trans) (rule kept_busy_consume)
  with assms(2) have "one_at_a_time (state_of (consume_chunk P cb chunk s))"
    by (rule one_at_a_time_kept)
  with Receive_chunk show ?thesis
    by (simp add: step_def)
next
  case (Settle outcome)
  then show ?thesis
    by (simp add: step_def one_at_a_time_complete[OF assms])
next
  case Run_task
  from assms(2) have "one_at_a_time (run_task P cb s)"
    by (rule one_at_a_time_kept) (rule kept_busy_run_task)
  with Run_task show ?thesis
    by (simp add: step_def)
next
  case (Call_close reason)
  from assms(2) have "one_at_a_time (destroy cb reason (Some True) s)"
    by (rule one_at_a_time_kept) (rule kept_busy_destroy)
  with Call_close show ?thesis
    by (simp add: step_def close_def)
next
  case (Call_transport_closed reason)
  from assms(2) have "one_at_a_time (destroy cb reason (Some False) s)"
    by (rule one_at_a_time_kept) (rule kept_busy_destroy)
  with Call_transport_closed show ?thesis
    by (simp add: step_def transport_closed_def)
qed (use assms(2) in \<open>simp_all add: step_def send_def status_send_def redirect_def enqueue_def
    one_at_a_time_def\<close>)

text \<open>In every run of a consumer, an operation is in flight only while \<open>busy\<close> is set; and
  then \<open>consume\<close> takes nothing and starts nothing.\<close>

lemma one_at_a_time_run:
  assumes "redirect_starts_nothing cb"
  shows "one_at_a_time (run P cb inputs (make_consumer enc dec hk c w t))"
proof (induction inputs rule: rev_induct)
  case Nil
  show ?case
    by (simp add: run_def one_at_a_time_def make_consumer_def)
next
  case (snoc i inputs)
  then show ?case
    using one_at_a_time_step[OF assms, of _ P i] by (simp add: run_def)
qed

lemma consume_while_in_flight:
  assumes "redirect_starts_nothing cb"
    and "in_flight (run P cb inputs (make_consumer enc dec hk c w t)) \<noteq> None"
  shows "consume_chunk P cb chunk (run P cb inputs (make_consumer enc dec hk c w t))
         = Returned ((run P cb inputs (make_consumer enc dec hk c w t))
             \<lparr>buffer := buffer (run P cb inputs (make_consumer enc dec hk c w t)) @ chunk\<rparr>)"
proof -
  from one_at_a_time_run[OF assms(1), of P inputs enc dec hk c w t] assms(2)
  have "busy (run P cb inputs (make_consumer enc dec hk c w t))"
    by (simp add: one_at_a_time_def)
  then show ?thesis
    by (simp add: consume_chunk_stopped)
qed

end
